(* ===== verification/Go_Prelude.thy ===== *)
theory Go_Prelude
  imports Complex_Main "HOL-Library.Word"
begin

text \<open>
  The part of the Go language every component of easycall uses, and the proof hints the
  components share.

  \<^item> A Go call that can panic returns an \<open>outcome\<close>: \<open>Ret v\<close> for a normal return and
    \<open>Panic p\<close> for a run-time panic. A Go pair \<open>(v, error)\<close> is the sum \<open>go_error + 'a\<close>,
    with \<open>Inl\<close> for a non-nil error.
  \<^item> \<open>int64\<close> and \<open>int32\<close> values are the integers of their range; every addition the code
    makes on them goes through \<open>i64\<close> or \<open>i32\<close>, which wrap around. \<open>uint32\<close>, \<open>uint64\<close> and
    \<open>byte\<close> are words.
  \<^item> \<open>slice\<close> and \<open>index\<close> are the bounds-checked slice and index expressions.
  \<^item> \<open>reaches\<close> is the reachability of a transition system, and the locale
    \<open>invariant_system\<close> the one induction behind every state-machine invariant.
\<close>

section \<open>Words, errors and panics\<close>

type_synonym byte = "8 word"
type_synonym uint32 = "32 word"
type_synonym uint64 = "64 word"
type_synonym go_error = string

datatype panic =
    NilDeref          \<comment> \<open>nil pointer or nil interface dereference\<close>
  | SliceBounds       \<comment> \<open>slice bounds out of range\<close>
  | IndexBounds       \<comment> \<open>index out of range\<close>
  | ClosedChannel     \<comment> \<open>send on, or close of, a closed channel\<close>
  | IntnArgument      \<comment> \<open>rand.Intn with an argument that is not positive\<close>
  | DivideByZero      \<comment> \<open>integer division by zero\<close>
  | MakeChanSize      \<comment> \<open>make(chan T, n) with a negative n\<close>
  | ReflectCall       \<comment> \<open>reflect: wrong arguments of a called method\<close>
  | StackOverflow     \<comment> \<open>the goroutine's stack is exhausted\<close>
  | HandlerPanic      \<comment> \<open>a panic raised by user code\<close>

datatype 'a outcome = Ret 'a | Panic panic

fun obind :: "'a outcome \<Rightarrow> ('a \<Rightarrow> 'b outcome) \<Rightarrow> 'b outcome" where
  "obind (Ret x) f = f x"
| "obind (Panic p) f = Panic p"

fun returns :: "'a outcome \<Rightarrow> bool" where
  "returns (Ret x) = True"
| "returns (Panic p) = False"

lemma obind_Ret_conv: "obind m f = Ret y \<longleftrightarrow> (\<exists>x. m = Ret x \<and> f x = Ret y)"
  by (cases m) auto

lemma obind_Panic_conv: "obind m f = Panic p \<longleftrightarrow> m = Panic p \<or> (\<exists>x. m = Ret x \<and> f x = Panic p)"
  by (cases m) auto

lemma returns_conv: "returns m \<longleftrightarrow> (\<exists>x. m = Ret x)"
  by (cases m) auto

section \<open>Bounds-checked slices\<close>

text \<open>
  \<open>s[lo:hi]\<close>. Every slice the modelled code cuts was made by \<open>make([]byte, n)\<close> or is a
  string, so its capacity is its length.
\<close>

definition slice :: "'a list \<Rightarrow> nat \<Rightarrow> nat \<Rightarrow> 'a list outcome" where
  "slice xs lo hi =
     (if lo \<le> hi \<and> hi \<le> length xs then Ret (take (hi - lo) (drop lo xs)) else Panic SliceBounds)"

definition index :: "'a list \<Rightarrow> int \<Rightarrow> 'a outcome" where
  "index xs i = (if 0 \<le> i \<and> i < int (length xs) then Ret (xs ! nat i) else Panic IndexBounds)"

lemma slice_append3:
  "lo = length xs \<Longrightarrow> hi = length xs + length ys \<Longrightarrow> slice (xs @ ys @ zs) lo hi = Ret ys"
  by (simp add: slice_def)

lemma slice_Ret_conv:
  "slice xs lo hi = Ret ys \<longleftrightarrow> lo \<le> hi \<and> hi \<le> length xs \<and> ys = take (hi - lo) (drop lo xs)"
  by (auto simp: slice_def)

lemma slice_Panic_conv: "slice xs lo hi = Panic p \<longleftrightarrow> (hi < lo \<or> length xs < hi) \<and> p = SliceBounds"
  by (auto simp: slice_def)

lemma index_Ret_mem: "index xs i = Ret x \<Longrightarrow> x \<in> set xs"
  by (auto simp: index_def split: if_splits)

lemma index_last: "xs \<noteq> [] \<Longrightarrow> index xs (int (length xs - 1)) = Ret (last xs)"
  by (simp add: index_def last_conv_nth)

section \<open>Wrapping signed integers\<close>

definition i64 :: "int \<Rightarrow> int" where
  "i64 x = (x + 2 ^ 63) mod 2 ^ 64 - 2 ^ 63"

definition i32 :: "int \<Rightarrow> int" where
  "i32 x = (x + 2 ^ 31) mod 2 ^ 32 - 2 ^ 31"

abbreviation in_i64 :: "int \<Rightarrow> bool" where
  "in_i64 x \<equiv> - (2 ^ 63) \<le> x \<and> x < 2 ^ 63"

abbreviation in_i32 :: "int \<Rightarrow> bool" where
  "in_i32 x \<equiv> - (2 ^ 31) \<le> x \<and> x < 2 ^ 31"

lemma i64_id: "in_i64 x \<Longrightarrow> i64 x = x"
  by (simp add: i64_def mod_pos_pos_trivial)

lemma i32_id: "in_i32 x \<Longrightarrow> i32 x = x"
  by (simp add: i32_def mod_pos_pos_trivial)

lemma i64_range: "in_i64 (i64 x)"
  using pos_mod_bound [of "2 ^ 64" "x + 2 ^ 63"] pos_mod_sign [of "2 ^ 64" "x + 2 ^ 63"]
  by (simp add: i64_def)

lemma i32_range: "in_i32 (i32 x)"
  using pos_mod_bound [of "2 ^ 32" "x + 2 ^ 31"] pos_mod_sign [of "2 ^ 32" "x + 2 ^ 31"]
  by (simp add: i32_def)

text \<open>Go's \<open>%\<close> truncates towards zero: the result has the sign of the dividend.\<close>

definition go_rem :: "int \<Rightarrow> int \<Rightarrow> int outcome" where
  "go_rem a b = (if b = 0 then Panic DivideByZero else Ret (sgn a * (\<bar>a\<bar> mod \<bar>b\<bar>)))"

lemma go_rem_nonneg: "0 \<le> a \<Longrightarrow> 0 < b \<Longrightarrow> go_rem a b = Ret (a mod b)"
  by (cases "a = 0") (auto simp: go_rem_def sgn_if)

section \<open>Reachable states and invariants\<close>

inductive reaches :: "('s \<Rightarrow> bool) \<Rightarrow> ('s \<Rightarrow> 's \<Rightarrow> bool) \<Rightarrow> 's \<Rightarrow> bool"
  for start :: "'s \<Rightarrow> bool" and step :: "'s \<Rightarrow> 's \<Rightarrow> bool" where
  reaches_init [intro]: "start s \<Longrightarrow> reaches start step s"
| reaches_step: "reaches start step s \<Longrightarrow> step s t \<Longrightarrow> reaches start step t"

locale invariant_system =
  fixes start :: "'s \<Rightarrow> bool"
    and step :: "'s \<Rightarrow> 's \<Rightarrow> bool"
    and inv :: "'s \<Rightarrow> bool"
  assumes inv_start: "start s \<Longrightarrow> inv s"
    and inv_step: "inv s \<Longrightarrow> step s t \<Longrightarrow> inv t"
begin

lemma reaches_inv: "reaches start step s \<Longrightarrow> inv s"
  by (induction rule: reaches.induct) (auto intro: inv_start inv_step)

lemma steps_inv: "step\<^sup>*\<^sup>* s t \<Longrightarrow> inv s \<Longrightarrow> inv t"
  by (induction rule: rtranclp_induct) (auto intro: inv_step)

end

lemma reaches_steps: "step\<^sup>*\<^sup>* s t \<Longrightarrow> reaches start step s \<Longrightarrow> reaches start step t"
  by (induction rule: rtranclp_induct) (auto intro: reaches_step)

section \<open>Updated lists\<close>

lemma nth_updated: "j < length xs \<Longrightarrow> xs[i := v] ! j = (if i = j then v else xs ! j)"
  by (cases "i = j") auto

lemma length_filter_update:
  "i < length xs \<Longrightarrow>
     int (length (filter P (xs[i := y]))) =
       int (length (filter P xs)) + (if P y then 1 else 0) - (if P (xs ! i) then 1 else 0)"
proof (induction xs arbitrary: i)
  case (Cons x xs)
  show ?case
  proof (cases i)
    case (Suc j)
    with Cons.prems have "j < length xs" by simp
    from Cons.IH [OF this] Suc show ?thesis by (auto split: if_splits)
  qed simp
qed simp

lemma i32_i32_add: "i32 (i32 x + y) = i32 (x + y)"
proof -
  have "(i32 x + y + 2 ^ 31) mod 2 ^ 32 = ((x + 2 ^ 31) mod 2 ^ 32 + y) mod 2 ^ 32"
    by (simp add: i32_def)
  also have "\<dots> = (x + 2 ^ 31 + y) mod 2 ^ 32"
    by (rule mod_add_left_eq)
  also have "x + 2 ^ 31 + y = x + y + 2 ^ 31"
    by linarith
  finally show ?thesis
    unfolding i32_def by linarith
qed

lemma i32_i32_diff: "i32 (i32 x - y) = i32 (x - y)"
  using i32_i32_add [of x "- y"] by simp

end
