(* ===== verification/Easy_Package.thy ===== *)
theory Easy_Package
  imports Go_Prelude
begin

unbundle bit_operations_syntax

text \<open>
  The wire format of easycall (\<open>easy_package.go\<close>): the package head, the package and its
  two encoders and two decoders. A frame is
  \<open>STX, format, headLen (4 bytes), bodyLen (4 bytes), head, body, ETX\<close>.

  The serialisers of the two formats are a parameter of the model (\<open>codecs\<close>): for msgpack
  it stands for \<open>github.com/vmihailenco/msgpack\<close>, for JSON the theory \<open>Json_Head\<close> gives
  the head's serialiser of \<open>encoding/json\<close>. The locale \<open>head_codec\<close> is what the frame
  needs of the head's serialiser: decoding an encoded head gives it back.
\<close>

section \<open>Constants\<close>

definition STX :: byte where "STX = 0x2"
definition ETX :: byte where "ETX = 0x3"
definition HEAD_MAX_LEN :: uint32 where "HEAD_MAX_LEN = 128 * 2014"
definition BODY_MAX_LEN :: uint32 where "BODY_MAX_LEN = 2 * 1024 * 1024"
definition FORMAT_JSON :: byte where "FORMAT_JSON = 1"
definition FORMAT_MSGPACK :: byte where "FORMAT_MSGPACK = 0"

lemmas pkg_consts = STX_def ETX_def FORMAT_JSON_def FORMAT_MSGPACK_def

lemma format_distinct [simp]: "FORMAT_JSON \<noteq> FORMAT_MSGPACK" "FORMAT_MSGPACK \<noteq> FORMAT_JSON"
  by (simp_all add: pkg_consts)

section \<open>The package head\<close>

record easy_head =
  hService :: string
  hMethod :: string
  hRouteKey :: string
  hToken :: string
  hUid :: uint64
  hRequestIp :: string
  hTraceId :: string
  hSeq :: uint64
  hRet :: int
  hMsg :: string

definition NewEasyHead :: easy_head where
  "NewEasyHead =
     \<lparr>hService = '''', hMethod = '''', hRouteKey = '''', hToken = '''', hUid = 0,
      hRequestIp = '''', hTraceId = '''', hSeq = 0, hRet = 0, hMsg = ''''\<rparr>"

definition GetService :: "easy_head \<Rightarrow> string" where "GetService head = hService head"
definition GetMethod :: "easy_head \<Rightarrow> string" where "GetMethod head = hMethod head"
definition GetRouteKey :: "easy_head \<Rightarrow> string" where "GetRouteKey head = hRouteKey head"
definition GetToken :: "easy_head \<Rightarrow> string" where "GetToken head = hToken head"
definition GetUid :: "easy_head \<Rightarrow> uint64" where "GetUid head = hUid head"
definition GetRequestIp :: "easy_head \<Rightarrow> string" where "GetRequestIp head = hRequestIp head"
definition GetTraceId :: "easy_head \<Rightarrow> string" where "GetTraceId head = hTraceId head"
definition GetSeq :: "easy_head \<Rightarrow> uint64" where "GetSeq head = hSeq head"
definition GetRet :: "easy_head \<Rightarrow> int" where "GetRet head = hRet head"
definition GetMsg :: "easy_head \<Rightarrow> string" where "GetMsg head = hMsg head"

text \<open>The setters update the head in place and return it; the model returns the new head.\<close>

definition SetService :: "string \<Rightarrow> easy_head \<Rightarrow> easy_head" where
  "SetService service head = head\<lparr>hService := service\<rparr>"
definition SetMethod :: "string \<Rightarrow> easy_head \<Rightarrow> easy_head" where
  "SetMethod method head = head\<lparr>hMethod := method\<rparr>"
definition SetRouteKey :: "string \<Rightarrow> easy_head \<Rightarrow> easy_head" where
  "SetRouteKey routeKey head = head\<lparr>hRouteKey := routeKey\<rparr>"
definition SetToken :: "string \<Rightarrow> easy_head \<Rightarrow> easy_head" where
  "SetToken token head = head\<lparr>hToken := token\<rparr>"
definition SetUid :: "uint64 \<Rightarrow> easy_head \<Rightarrow> easy_head" where
  "SetUid uid head = head\<lparr>hUid := uid\<rparr>"
definition SetRequestIp :: "string \<Rightarrow> easy_head \<Rightarrow> easy_head" where
  "SetRequestIp requestIp head = head\<lparr>hRequestIp := requestIp\<rparr>"
definition SetTraceId :: "string \<Rightarrow> easy_head \<Rightarrow> easy_head" where
  "SetTraceId traceId head = head\<lparr>hTraceId := traceId\<rparr>"
definition SetSeq :: "uint64 \<Rightarrow> easy_head \<Rightarrow> easy_head" where
  "SetSeq sq head = head\<lparr>hSeq := sq\<rparr>"
definition SetRet :: "int \<Rightarrow> easy_head \<Rightarrow> easy_head" where
  "SetRet ret head = head\<lparr>hRet := ret\<rparr>"
definition SetMsg :: "string \<Rightarrow> easy_head \<Rightarrow> easy_head" where
  "SetMsg msg head = head\<lparr>hMsg := msg\<rparr>"

lemmas head_getters =
  GetService_def GetMethod_def GetRouteKey_def GetToken_def GetUid_def GetRequestIp_def
  GetTraceId_def GetSeq_def GetRet_def GetMsg_def
lemmas head_setters =
  SetService_def SetMethod_def SetRouteKey_def SetToken_def SetUid_def SetRequestIp_def
  SetTraceId_def SetSeq_def SetRet_def SetMsg_def

section \<open>Serialisers\<close>

text \<open>
  \<open>enc_head\<close> and \<open>enc_body\<close> are \<open>NewEncoder(&buf).Encode(v)\<close>: the bytes appended to the
  buffer, or the error. \<open>dec_head\<close> is \<open>NewDecoder(r).Decode(head)\<close> into a fresh head,
  \<open>dec_body\<close> into the caller's variable through a pointer, and \<open>dec_by_value\<close> is the call
  \<open>Decode(body)\<close> with a map that is not a pointer. A body is a value of type \<open>'b\<close>;
  \<open>None\<close> is a nil interface.
\<close>

record 'b codec =
  enc_head :: "easy_head \<Rightarrow> go_error + byte list"
  dec_head :: "byte list \<Rightarrow> go_error + easy_head"
  enc_body :: "'b option \<Rightarrow> go_error + byte list"
  dec_body :: "byte list \<Rightarrow> go_error + 'b"
  dec_by_value :: "byte list \<Rightarrow> go_error + 'b"

record 'b codecs =
  json :: "'b codec"
  msgpack :: "'b codec"

section \<open>Packages\<close>

record 'b easy_package =
  pFormat :: byte
  pHead :: easy_head
  pBodyData :: "byte list"
  pPkgData :: "byte list option"
  pBody :: "'b option"

definition NewPackageWithBodyData :: "byte \<Rightarrow> easy_head \<Rightarrow> byte list \<Rightarrow> 'b easy_package" where
  "NewPackageWithBodyData fmt head bodyData =
     \<lparr>pFormat = fmt, pHead = head, pBodyData = bodyData, pPkgData = None, pBody = None\<rparr>"

definition NewPackageWithBody :: "byte \<Rightarrow> easy_head \<Rightarrow> 'b option \<Rightarrow> 'b easy_package" where
  "NewPackageWithBody fmt head body =
     \<lparr>pFormat = fmt, pHead = head, pBodyData = [], pPkgData = None, pBody = body\<rparr>"

definition GetFormat :: "'b easy_package \<Rightarrow> byte" where "GetFormat pkg = pFormat pkg"
definition SetFormat :: "byte \<Rightarrow> 'b easy_package \<Rightarrow> 'b easy_package" where
  "SetFormat fmt pkg = pkg\<lparr>pFormat := fmt\<rparr>"
definition SetHead :: "easy_head \<Rightarrow> 'b easy_package \<Rightarrow> 'b easy_package" where
  "SetHead head pkg = pkg\<lparr>pHead := head\<rparr>"
definition SetBody :: "'b option \<Rightarrow> 'b easy_package \<Rightarrow> 'b easy_package" where
  "SetBody body pkg = pkg\<lparr>pBody := body\<rparr>"
definition GetHead :: "'b easy_package \<Rightarrow> easy_head" where "GetHead pkg = pHead pkg"
definition GetBodyData :: "'b easy_package \<Rightarrow> byte list" where "GetBodyData pkg = pBodyData pkg"
definition SetBodyData :: "byte list \<Rightarrow> 'b easy_package \<Rightarrow> 'b easy_package" where
  "SetBodyData bodyData pkg = pkg\<lparr>pBodyData := bodyData\<rparr>"
definition GetPkgData :: "'b easy_package \<Rightarrow> byte list option" where "GetPkgData pkg = pPkgData pkg"
definition SetPkgData :: "byte list option \<Rightarrow> 'b easy_package \<Rightarrow> 'b easy_package" where
  "SetPkgData pkgData pkg = pkg\<lparr>pPkgData := pkgData\<rparr>"
definition GetBody :: "'b easy_package \<Rightarrow> 'b option" where "GetBody pkg = pBody pkg"

lemmas pkg_accessors =
  GetFormat_def SetFormat_def SetHead_def SetBody_def GetHead_def GetBodyData_def
  SetBodyData_def GetPkgData_def SetPkgData_def GetBody_def
  NewPackageWithBodyData_def NewPackageWithBody_def

section \<open>Big-endian lengths\<close>

definition PutUint32 :: "uint32 \<Rightarrow> byte list" where
  "PutUint32 v = [ucast (drop_bit 24 v), ucast (drop_bit 16 v), ucast (drop_bit 8 v), ucast v]"

definition Uint32 :: "byte list \<Rightarrow> uint32" where
  "Uint32 b = ucast (b ! 3) OR push_bit 8 (ucast (b ! 2)) OR push_bit 16 (ucast (b ! 1))
                OR push_bit 24 (ucast (b ! 0))"

lemma length_PutUint32 [simp]: "length (PutUint32 v) = 4"
  by (simp add: PutUint32_def)

lemma Uint32_PutUint32 [simp]: "Uint32 (PutUint32 v) = v"
proof (rule bit_word_eqI)
  fix n :: nat
  assume "n < LENGTH(32)"
  then have "n < 24 \<or> (n - 16 < 8 \<longrightarrow> False) \<and> 24 + (n - 24) = n \<and> \<not> n - 8 < 8 \<and> \<not> n < 8 \<and> n - 24 < 8"
    by auto
  then show "bit (Uint32 (PutUint32 v)) n = bit v n"
    using \<open>n < LENGTH(32)\<close> by (auto simp: Uint32_def PutUint32_def bit_simps)
qed

lemma PutUint32_Uint32:
  assumes "length b = 4"
  shows "PutUint32 (Uint32 b) = b"
proof -
  obtain b0 b1 b2 b3 where b: "b = [b0, b1, b2, b3]"
    using assms by (auto simp: numeral_eq_Suc length_Suc_conv)
  have "ucast (drop_bit 24 (Uint32 b)) = b0" "ucast (drop_bit 16 (Uint32 b)) = b1"
    "ucast (drop_bit 8 (Uint32 b)) = b2" "ucast (Uint32 b) = b3"
    unfolding Uint32_def b
    by (rule bit_word_eqI; auto simp: bit_simps dest: bit_imp_le_length)+
  then show ?thesis
    by (simp add: PutUint32_def b)
qed

section \<open>Encoding\<close>

definition copy_at :: "nat \<Rightarrow> 'a list \<Rightarrow> 'a list \<Rightarrow> 'a list" where
  "copy_at i src dst = take i dst @ src @ drop (i + length src) dst"

text \<open>The end of both encoders: append \<open>ETX\<close>, then fill in the ten reserved bytes.\<close>

definition seal :: "byte \<Rightarrow> byte list \<Rightarrow> int \<Rightarrow> int \<Rightarrow> byte list" where
  "seal fmt buf headLen bodyLen =
     (let pkgData = buf @ [ETX];
          pkgData = pkgData[0 := STX];
          pkgData = pkgData[1 := fmt];
          pkgData = copy_at 2 (PutUint32 (of_int headLen)) pkgData
      in copy_at 6 (PutUint32 (of_int bodyLen)) pkgData)"

definition EncodeWithBody :: "'b codecs \<Rightarrow> 'b easy_package \<Rightarrow> go_error + byte list" where
  "EncodeWithBody cs pkg =
     (let buf = replicate 10 0 in
      if pFormat pkg = FORMAT_MSGPACK then
        (case enc_head (msgpack cs) (pHead pkg) of
           Inl err \<Rightarrow> Inl err
         | Inr written \<Rightarrow>
             let buf = buf @ written; headLen = int (length buf) - 10 in
             (case enc_body (msgpack cs) (pBody pkg) of
                Inl err \<Rightarrow> Inl err
              | Inr written \<Rightarrow>
                  let buf = buf @ written; bodyLen = int (length buf) - headLen - 10 in
                  Inr (seal (pFormat pkg) buf headLen bodyLen)))
      else if pFormat pkg = FORMAT_JSON then
        (case enc_head (json cs) (pHead pkg) of
           Inl err \<Rightarrow> Inl err
         | Inr written \<Rightarrow>
             let buf = buf @ written; headLen = int (length buf) - 10 in
             (case enc_body (json cs) (pBody pkg) of
                Inl err \<Rightarrow> Inl err
              | Inr written \<Rightarrow>
                  let buf = buf @ written; bodyLen = int (length buf) - headLen - 10 in
                  Inr (seal (pFormat pkg) buf headLen bodyLen)))
      else Inl ''invalid pkg format'')"

definition EncodeWithBodyData :: "'b codecs \<Rightarrow> 'b easy_package \<Rightarrow> go_error + byte list" where
  "EncodeWithBodyData cs pkg =
     (let buf = replicate 10 0 in
      if pFormat pkg = FORMAT_MSGPACK then
        (case enc_head (msgpack cs) (pHead pkg) of
           Inl err \<Rightarrow> Inl err
         | Inr written \<Rightarrow>
             let buf = buf @ written;
                 headLen = int (length buf) - 10;
                 buf = buf @ pBodyData pkg;
                 bodyLen = int (length buf) - headLen - 10
             in Inr (seal (pFormat pkg) buf headLen bodyLen))
      else if pFormat pkg = FORMAT_JSON then
        (case enc_head (json cs) (pHead pkg) of
           Inl err \<Rightarrow> Inl err
         | Inr written \<Rightarrow>
             let buf = buf @ written;
                 headLen = int (length buf) - 10;
                 buf = buf @ pBodyData pkg;
                 bodyLen = int (length buf) - headLen - 10
             in Inr (seal (pFormat pkg) buf headLen bodyLen))
      else Inl ''invalid pkg format'')"

text \<open>What an encoder leaves in the buffer: the frame of the two payloads.\<close>

definition frame :: "byte \<Rightarrow> byte list \<Rightarrow> byte list \<Rightarrow> byte list" where
  "frame fmt hb bb =
     [STX, fmt] @ PutUint32 (of_nat (length hb)) @ PutUint32 (of_nat (length bb)) @ hb @ bb @ [ETX]"

fun codec_of :: "byte \<Rightarrow> 'b codecs \<Rightarrow> 'b codec" where
  "codec_of fmt cs = (if fmt = FORMAT_MSGPACK then msgpack cs else json cs)"

declare codec_of.simps [simp del]

abbreviation known_format :: "byte \<Rightarrow> bool" where
  "known_format fmt \<equiv> fmt = FORMAT_MSGPACK \<or> fmt = FORMAT_JSON"

lemma length_frame: "length (frame fmt hb bb) = 11 + length hb + length bb"
  by (simp add: frame_def)

lemma seal_frame:
  "seal fmt (replicate 10 0 @ hb @ bb) (int (length hb)) (int (length bb)) = frame fmt hb bb"
  by (simp add: seal_def frame_def copy_at_def PutUint32_def Let_def numeral_eq_Suc)

lemma EncodeWithBodyData_eq:
  "EncodeWithBodyData cs pkg =
     (if known_format (pFormat pkg)
      then map_sum id (\<lambda>hb. frame (pFormat pkg) hb (pBodyData pkg))
             (enc_head (codec_of (pFormat pkg) cs) (pHead pkg))
      else Inl ''invalid pkg format'')"
  by (auto simp: EncodeWithBodyData_def codec_of.simps seal_frame split: sum.split)

lemma EncodeWithBody_Inr_conv:
  "EncodeWithBody cs pkg = Inr d \<longleftrightarrow>
     known_format (pFormat pkg) \<and>
     (\<exists>hb bb. enc_head (codec_of (pFormat pkg) cs) (pHead pkg) = Inr hb \<and>
              enc_body (codec_of (pFormat pkg) cs) (pBody pkg) = Inr bb \<and>
              d = frame (pFormat pkg) hb bb)"
  by (auto simp: EncodeWithBody_def codec_of.simps seal_frame Let_def split: sum.split)

section \<open>Decoding\<close>

text \<open>
  The bounds \<open>10+headLen\<close> and \<open>10+headLen+bodyLen\<close> are \<open>uint32\<close> sums, so they wrap
  around before they bound the slice.
\<close>

definition split_frame :: "byte list \<Rightarrow> (byte \<times> byte list \<times> byte list) outcome" where
  "split_frame pkgData =
     obind (index pkgData 1) (\<lambda>fmt.
     obind (slice pkgData 2 6) (\<lambda>hl.
     obind (slice pkgData 6 10) (\<lambda>bl.
       let headLen = Uint32 hl; bodyLen = Uint32 bl in
     obind (slice pkgData 10 (unat (10 + headLen))) (\<lambda>headData.
     obind (slice pkgData (unat (10 + headLen)) (unat (10 + headLen + bodyLen))) (\<lambda>bodyData.
       Ret (fmt, headData, bodyData))))))"

definition DecodeWithBodyData ::
    "'b codecs \<Rightarrow> byte list \<Rightarrow> (go_error + 'b easy_package) outcome" where
  "DecodeWithBodyData cs pkgData =
     obind (split_frame pkgData) (\<lambda>(fmt, headData, bodyData).
       if fmt = FORMAT_JSON then
         (case dec_head (json cs) headData of
            Inl err \<Rightarrow> Ret (Inl err)
          | Inr head \<Rightarrow> Ret (Inr \<lparr>pFormat = fmt, pHead = head, pBodyData = bodyData,
                                  pPkgData = Some pkgData, pBody = None\<rparr>))
       else if fmt = FORMAT_MSGPACK then
         (case dec_head (msgpack cs) headData of
            Inl err \<Rightarrow> Ret (Inl err)
          | Inr head \<Rightarrow> Ret (Inr \<lparr>pFormat = fmt, pHead = head, pBodyData = bodyData,
                                  pPkgData = Some pkgData, pBody = None\<rparr>))
       else Ret (Inl ''invalid pkg format''))"

text \<open>
  The JSON branch decodes the body through a pointer, the msgpack branch passes the map
  itself.
\<close>

definition DecodeWithBody ::
    "'b codecs \<Rightarrow> byte list \<Rightarrow> (go_error + 'b easy_package) outcome" where
  "DecodeWithBody cs pkgData =
     obind (split_frame pkgData) (\<lambda>(fmt, headData, bodyData).
       if fmt = FORMAT_JSON then
         (case dec_head (json cs) headData of
            Inl err \<Rightarrow> Ret (Inl err)
          | Inr head \<Rightarrow>
              (case dec_body (json cs) bodyData of
                 Inl err \<Rightarrow> Ret (Inl err)
               | Inr body \<Rightarrow> Ret (Inr \<lparr>pFormat = fmt, pHead = head, pBodyData = [],
                                       pPkgData = Some pkgData, pBody = Some body\<rparr>)))
       else if fmt = FORMAT_MSGPACK then
         (case dec_head (msgpack cs) headData of
            Inl err \<Rightarrow> Ret (Inl err)
          | Inr head \<Rightarrow>
              (case dec_by_value (msgpack cs) bodyData of
                 Inl err \<Rightarrow> Ret (Inl err)
               | Inr body \<Rightarrow> Ret (Inr \<lparr>pFormat = fmt, pHead = head, pBodyData = [],
                                       pPkgData = Some pkgData, pBody = Some body\<rparr>)))
       else Ret (Inl ''invalid pkg format''))"

definition DecodeBody :: "'b codecs \<Rightarrow> 'b easy_package \<Rightarrow> go_error + 'b" where
  "DecodeBody cs pkg =
     (if pFormat pkg = FORMAT_MSGPACK then dec_body (msgpack cs) (pBodyData pkg)
      else if pFormat pkg = FORMAT_JSON then dec_body (json cs) (pBodyData pkg)
      else Inl ''invalid package format'')"

subsection \<open>Splitting a frame\<close>

definition fits :: "byte list \<Rightarrow> byte list \<Rightarrow> bool" where
  "fits hb bb \<longleftrightarrow> 10 + length hb + length bb < 2 ^ 32"

lemma unat_frame_bounds:
  assumes "fits hb bb"
  shows "unat (10 + of_nat (length hb) :: uint32) = 10 + length hb"
    and "unat (10 + of_nat (length hb) + of_nat (length bb) :: uint32) = 10 + length hb + length bb"
proof -
  have "(10 + of_nat (length hb) :: uint32) = of_nat (10 + length hb)"
    and "(10 + of_nat (length hb) + of_nat (length bb) :: uint32)
           = of_nat (10 + length hb + length bb)"
    by simp_all
  then show "unat (10 + of_nat (length hb) :: uint32) = 10 + length hb"
    and "unat (10 + of_nat (length hb) + of_nat (length bb) :: uint32) = 10 + length hb + length bb"
    using assms by (simp_all only: unat_of_nat fits_def) auto
qed

lemma split_frame_frame:
  assumes "fits hb bb"
  shows "split_frame (frame fmt hb bb) = Ret (fmt, hb, bb)"
proof -
  let ?hl = "PutUint32 (of_nat (length hb))" and ?bl = "PutUint32 (of_nat (length bb))"
  have f: "frame fmt hb bb = [STX, fmt] @ ?hl @ ?bl @ hb @ bb @ [ETX]"
    by (simp add: frame_def)
  have 1: "index (frame fmt hb bb) 1 = Ret fmt"
    by (simp add: f index_def)
  have 2: "slice (frame fmt hb bb) 2 6 = Ret ?hl"
    unfolding f by (rule slice_append3) simp_all
  have 3: "slice (frame fmt hb bb) 6 10 = Ret ?bl"
    using slice_append3 [of 6 "[STX, fmt] @ ?hl" 10 ?bl "hb @ bb @ [ETX]"] by (simp add: f)
  have 4: "slice (frame fmt hb bb) 10 (10 + length hb) = Ret hb"
    using slice_append3 [of 10 "[STX, fmt] @ ?hl @ ?bl" "10 + length hb" hb "bb @ [ETX]"]
    by (simp add: f)
  have 5: "slice (frame fmt hb bb) (10 + length hb) (10 + length hb + length bb) = Ret bb"
    using slice_append3 [of "10 + length hb" "[STX, fmt] @ ?hl @ ?bl @ hb"
        "10 + length hb + length bb" bb "[ETX]"] by (simp add: f)
  show ?thesis
    using unat_frame_bounds [OF assms]
    by (simp add: split_frame_def 1 2 3 4 5)
qed

text \<open>Exactly which byte strings make the decoders panic.\<close>

lemma split_frame_returns:
  "returns (split_frame d) \<longleftrightarrow>
     10 \<le> length d \<and>
     (let h = Uint32 (take 4 (drop 2 d)); b = Uint32 (take 4 (drop 6 d)) in
      10 \<le> unat (10 + h) \<and> unat (10 + h) \<le> unat (10 + h + b) \<and> unat (10 + h + b) \<le> length d)"
  by (auto simp: split_frame_def slice_def index_def Let_def)

lemma DecodeWithBodyData_returns:
  "returns (DecodeWithBodyData cs d) \<longleftrightarrow> returns (split_frame d)"
  by (cases "split_frame d") (auto simp: DecodeWithBodyData_def split: sum.split)

lemma DecodeWithBody_returns:
  "returns (DecodeWithBody cs d) \<longleftrightarrow> returns (split_frame d)"
  by (cases "split_frame d") (auto simp: DecodeWithBody_def split: sum.split)

subsection \<open>The head serialiser's contract and the round trip\<close>

locale head_codec =
  fixes enc :: "easy_head \<Rightarrow> go_error + byte list"
    and dec :: "byte list \<Rightarrow> go_error + easy_head"
    and good :: "easy_head \<Rightarrow> bool"
  assumes enc_good: "good h \<Longrightarrow> \<exists>hb. enc h = Inr hb"
    and dec_enc: "good h \<Longrightarrow> enc h = Inr hb \<Longrightarrow> dec hb = Inr h"
begin

text \<open>The package a receiver gets from the frame of \<open>pkg\<close>, whose bytes are \<open>d\<close>.\<close>

lemma frame_roundtrip:
  assumes "enc_head (codec_of fmt cs) = enc" "dec_head (codec_of fmt cs) = dec"
    and "known_format fmt" "good h" "enc h = Inr hb" "fits hb bb"
  shows "DecodeWithBodyData cs (frame fmt hb bb) =
           Ret (Inr \<lparr>pFormat = fmt, pHead = h, pBodyData = bb,
                     pPkgData = Some (frame fmt hb bb), pBody = None\<rparr>)"
  using assms dec_enc [OF assms(4,5)]
  by (auto simp: DecodeWithBodyData_def split_frame_frame codec_of.simps)

lemma package_roundtrip:
  assumes "enc_head (codec_of (pFormat pkg) cs) = enc" "dec_head (codec_of (pFormat pkg) cs) = dec"
    and "good (pHead pkg)" "EncodeWithBodyData cs pkg = Inr d" "length d \<le> 2 ^ 32"
  shows "DecodeWithBodyData cs d = Ret (Inr (pkg\<lparr>pPkgData := Some d, pBody := None\<rparr>))"
proof -
  from assms(1,4) obtain hb where "known_format (pFormat pkg)" "enc (pHead pkg) = Inr hb"
    and d: "d = frame (pFormat pkg) hb (pBodyData pkg)"
    by (cases "enc (pHead pkg)") (auto simp: EncodeWithBodyData_eq split: if_splits)
  moreover have "fits hb (pBodyData pkg)"
    using assms(5) by (simp add: d length_frame fits_def)
  ultimately show ?thesis
    using frame_roundtrip [OF assms(1,2) _ assms(3)] by (cases pkg) simp
qed

text \<open>A package encoded from its body value decodes to the same head and the encoded body.\<close>

lemma package_body_roundtrip:
  assumes "enc_head (codec_of (pFormat pkg) cs) = enc" "dec_head (codec_of (pFormat pkg) cs) = dec"
    and "good (pHead pkg)" "EncodeWithBody cs pkg = Inr d" "length d \<le> 2 ^ 32"
    and "enc_body (codec_of (pFormat pkg) cs) (pBody pkg) = Inr bb"
  shows "DecodeWithBodyData cs d =
           Ret (Inr (pkg\<lparr>pBodyData := bb, pPkgData := Some d, pBody := None\<rparr>))"
proof -
  from assms(1,4,6) obtain hb where "known_format (pFormat pkg)" "enc (pHead pkg) = Inr hb"
    and d: "d = frame (pFormat pkg) hb bb"
    by (auto simp: EncodeWithBody_Inr_conv)
  moreover have "fits hb bb"
    using assms(5) by (simp add: d length_frame fits_def)
  ultimately show ?thesis
    using frame_roundtrip [OF assms(1,2) _ assms(3)] by (cases pkg) simp
qed

end

end
