(* ===== verification/Easy_Reader.thy ===== *)
theory Easy_Reader
  imports Easy_Package
begin

text \<open>
  The reading side of a connection (\<open>EasyConnection.Read\<close> in \<open>easy_connection.go\<close>): the
  loop that cuts the TCP byte stream into frames and dispatches each of them.

  A socket is the list of segments that are still to arrive; when it is empty the peer has
  closed the connection. \<open>net.Conn.Read\<close> fills at most the buffer and at least one byte of
  it from the segment at hand, which is its documented behaviour, so how the stream is cut
  into segments is visible to the loop.
\<close>

section \<open>The socket\<close>

type_synonym socket = "byte list list"

fun tcp_read :: "nat \<Rightarrow> socket \<Rightarrow> (byte list \<times> socket) option" where
  "tcp_read n segs =
     (if n = 0 then Some ([], segs)
      else case segs of
             [] \<Rightarrow> None
           | s # ss \<Rightarrow>
               (if s = [] then tcp_read n ss
                else Some (take n s, if drop n s = [] then ss else drop n s # ss)))"

declare tcp_read.simps [simp del]

text \<open>\<open>Read(buf)\<close> overwrites the front of the buffer and leaves the rest as it was.\<close>

definition read_into :: "byte list \<Rightarrow> socket \<Rightarrow> (byte list \<times> socket) option" where
  "read_into buf segs =
     map_option (\<lambda>(got, rest). (got @ drop (length got) buf, rest)) (tcp_read (length buf) segs)"

definition socket_size :: "socket \<Rightarrow> nat" where
  "socket_size segs = length (concat segs)"

lemma tcp_read_0 [simp]: "tcp_read 0 segs = Some ([], segs)"
  by (subst tcp_read.simps) simp

lemma tcp_read_Nil: "0 < n \<Longrightarrow> tcp_read n [] = None"
  by (subst tcp_read.simps) simp

lemma tcp_read_Cons:
  "0 < n \<Longrightarrow> s \<noteq> [] \<Longrightarrow>
     tcp_read n (s # ss) = Some (take n s, if drop n s = [] then ss else drop n s # ss)"
  by (subst tcp_read.simps) simp

lemma tcp_read_bytes:
  "tcp_read n segs = Some (got, rest) \<Longrightarrow>
     concat segs = got @ concat rest \<and> length got \<le> n \<and> (0 < n \<longrightarrow> got \<noteq> [])"
proof (induction segs)
  case Nil
  then show ?case by (cases "n = 0") (auto simp: tcp_read_Nil)
next
  case (Cons s ss)
  show ?case
  proof (cases "n = 0 \<or> s \<noteq> []")
    case True
    with Cons.prems show ?thesis
      by (cases "n = 0") (auto simp: tcp_read_Cons split: if_splits)
  next
    case False
    with Cons.prems have "tcp_read n ss = Some (got, rest)"
      by (subst (asm) tcp_read.simps) simp
    with Cons.IH False show ?thesis by simp
  qed
qed

lemma read_into_bytes:
  assumes "read_into buf segs = Some (buf', rest)"
  shows "length buf' = length buf" and "socket_size rest \<le> socket_size segs"
    and "buf \<noteq> [] \<Longrightarrow> socket_size rest < socket_size segs"
proof -
  from assms obtain got where got: "tcp_read (length buf) segs = Some (got, rest)"
    and buf': "buf' = got @ drop (length got) buf"
    by (auto simp: read_into_def)
  note b = tcp_read_bytes [OF got]
  from b buf' show "length buf' = length buf" by simp
  from b show "socket_size rest \<le> socket_size segs" by (simp add: socket_size_def)
  assume "buf \<noteq> []"
  with b have "got \<noteq> []" by simp
  with b show "socket_size rest < socket_size segs" by (simp add: socket_size_def)
qed

section \<open>One round of the loop\<close>

datatype read_exit =
    PeerClosed               \<comment> \<open>EOF or an error of a read\<close>
  | InvalidStx byte
  | InvalidFormat
  | InvalidHeadLen uint32
  | InvalidBodyLen uint32
  | InvalidEtx byte
  | ReadPanic panic          \<comment> \<open>recovered by \<open>PanicHandler\<close>\<close>

text \<open>The checks on the ten prefetched bytes; the result is \<open>pkgLen\<close>, a \<open>uint32\<close> sum.\<close>

definition check_header :: "byte list \<Rightarrow> read_exit + uint32" where
  "check_header prefetch =
     (let stx = prefetch ! 0;
          fmt = prefetch ! 1;
          headLen = Uint32 (take 4 (drop 2 prefetch));
          bodyLen = Uint32 (take 4 (drop 6 prefetch)) in
      if stx \<noteq> STX then Inl (InvalidStx stx)
      else if fmt \<noteq> FORMAT_JSON \<and> fmt \<noteq> FORMAT_MSGPACK then Inl InvalidFormat
      else if HEAD_MAX_LEN < headLen then Inl (InvalidHeadLen headLen)
      else if BODY_MAX_LEN < headLen then Inl (InvalidBodyLen bodyLen)
      else Inr (11 + headLen + bodyLen))"

text \<open>
  The rest of the package: \<open>make([]byte, pkgLen)\<close>, the copy of the prefetched bytes (all
  of them or the first \<open>pkgLen\<close>), one \<open>Read\<close> into \<open>pkgData[10:]\<close>, the check of \<open>ETX\<close>.
\<close>

definition read_rest :: "byte list \<Rightarrow> uint32 \<Rightarrow> socket \<Rightarrow> read_exit + (byte list \<times> socket)" where
  "read_rest prefetch pkgLen segs =
     (let pkgData = take (unat pkgLen) prefetch @ replicate (unat pkgLen - length prefetch) 0 in
      case slice pkgData 10 (length pkgData) of
        Panic p \<Rightarrow> Inl (ReadPanic p)
      | Ret window \<Rightarrow>
          (case read_into window segs of
             None \<Rightarrow> Inl PeerClosed
           | Some (got, segs) \<Rightarrow>
               (let pkgData = take 10 pkgData @ got in
                case index pkgData (uint (pkgLen - 1)) of
                  Panic p \<Rightarrow> Inl (ReadPanic p)
                | Ret etx \<Rightarrow> if etx \<noteq> ETX then Inl (InvalidEtx etx) else Inr (pkgData, segs))))"

definition read_package :: "socket \<Rightarrow> read_exit + (byte list \<times> socket)" where
  "read_package segs =
     (case read_into (replicate 10 0) segs of
        None \<Rightarrow> Inl PeerClosed
      | Some (prefetch, segs) \<Rightarrow>
          (case check_header prefetch of
             Inl e \<Rightarrow> Inl e
           | Inr pkgLen \<Rightarrow> read_rest prefetch pkgLen segs))"

lemma check_header_Inr_conv:
  "check_header h = Inr n \<longleftrightarrow>
     h ! 0 = STX \<and> known_format (h ! 1) \<and> Uint32 (take 4 (drop 2 h)) \<le> HEAD_MAX_LEN \<and>
     n = 11 + Uint32 (take 4 (drop 2 h)) + Uint32 (take 4 (drop 6 h))"
proof -
  have "HEAD_MAX_LEN < BODY_MAX_LEN"
    by (simp add: HEAD_MAX_LEN_def BODY_MAX_LEN_def)
  then show ?thesis
    by (auto simp: check_header_def Let_def)
qed

lemma uint_pred: "0 < unat w \<Longrightarrow> uint (w - 1 :: uint32) = int (unat w - 1)"
  by (metis less_irrefl of_nat_unat unat_0 unat_minus_one)

lemma read_rest_Inr_conv:
  assumes "length h = 10"
  shows "read_rest h n segs = Inr (d, rest) \<longleftrightarrow>
           10 \<le> unat n \<and>
           (\<exists>got. read_into (replicate (unat n - 10) 0) segs = Some (got, rest) \<and>
                  d = h @ got \<and> last d = ETX)"
    (is "?l \<longleftrightarrow> ?r")
proof (cases "10 \<le> unat n")
  case False
  with assms show ?thesis
    by (simp add: read_rest_def slice_def Let_def)
next
  case True
  then have s: "slice (h @ replicate (unat n - 10) 0) 10 (unat n) = Ret (replicate (unat n - 10) 0)"
    using assms by (simp add: slice_def)
  have i: "index (h @ got) (uint (n - 1)) = Ret (last (h @ got))"
    if "length got = unat n - 10" for got
  proof -
    have "h @ got \<noteq> []" and "length (h @ got) = unat n" and "0 < unat n"
      using that True assms by auto
    then show ?thesis
      by (metis uint_pred index_last)
  qed
  have t: "take (unat n) h = h"
    using assms True by simp
  show ?thesis
    using True assms s i t
    by (auto simp: read_rest_def Let_def split: option.splits outcome.splits if_splits
        dest!: read_into_bytes(1))
qed

lemma read_package_Inr_conv:
  "read_package segs = Inr (d, rest) \<longleftrightarrow>
     (\<exists>h mid n got. read_into (replicate 10 0) segs = Some (h, mid) \<and> check_header h = Inr n \<and>
        10 \<le> unat n \<and> read_into (replicate (unat n - 10) 0) mid = Some (got, rest) \<and>
        d = h @ got \<and> last d = ETX)"
  by (auto simp: read_package_def read_rest_Inr_conv read_into_bytes(1)
      split: option.splits sum.splits)

lemma read_package_shrinks:
  assumes "read_package segs = Inr (d, rest)"
  shows "socket_size rest < socket_size segs"
proof -
  from assms obtain h mid and n :: uint32 and got where
    "read_into (replicate 10 0) segs = Some (h, mid)"
    "read_into (replicate (unat n - 10) 0) mid = Some (got, rest)"
    unfolding read_package_Inr_conv by blast
  then have "socket_size mid < socket_size segs" and "socket_size rest \<le> socket_size mid"
    using read_into_bytes(3) read_into_bytes(2) by fastforce+
  then show ?thesis by simp
qed

section \<open>The loop\<close>

text \<open>
  The packages handed to \<open>Dispatch\<close>, in order, and why the loop ended. Every round consumes
  at least one byte of the stream.
\<close>

function read_loop :: "socket \<Rightarrow> byte list list \<times> read_exit" where
  "read_loop segs =
     (case read_package segs of
        Inl e \<Rightarrow> ([], e)
      | Inr (pkgData, segs') \<Rightarrow> (case read_loop segs' of (ds, e) \<Rightarrow> (pkgData # ds, e)))"
  by pat_completeness auto
termination
  by (relation "measure socket_size") (auto dest!: read_package_shrinks)

declare read_loop.simps [simp del]

lemma read_loop_Inl: "read_package segs = Inl e \<Longrightarrow> read_loop segs = ([], e)"
  by (simp add: read_loop.simps)

lemma read_loop_Inr:
  "read_package segs = Inr (d, rest) \<Longrightarrow>
     read_loop segs = (d # fst (read_loop rest), snd (read_loop rest))"
  by (simp add: read_loop.simps [of segs] split: prod.split)

lemma read_loop_Nil [simp]: "read_loop [] = ([], PeerClosed)"
  by (rule read_loop_Inl) (simp add: read_package_def read_into_def tcp_read_Nil)

subsection \<open>What is dispatched\<close>

text \<open>The fields the loop reads from a package.\<close>

definition head_len :: "byte list \<Rightarrow> uint32" where "head_len d = Uint32 (take 4 (drop 2 d))"
definition body_len :: "byte list \<Rightarrow> uint32" where "body_len d = Uint32 (take 4 (drop 6 d))"

text \<open>The checks a dispatched package has passed.\<close>

definition accepted :: "byte list \<Rightarrow> bool" where
  "accepted d \<longleftrightarrow>
     10 \<le> length d \<and> length d = unat (11 + head_len d + body_len d) \<and>
     d ! 0 = STX \<and> known_format (d ! 1) \<and> head_len d \<le> HEAD_MAX_LEN \<and> last d = ETX"

lemma read_package_accepted:
  assumes "read_package segs = Inr (d, rest)"
  shows "accepted d"
proof -
  from assms obtain h mid n got where h: "read_into (replicate 10 0) segs = Some (h, mid)"
    and n: "check_header h = Inr n" "10 \<le> unat n"
    and got: "read_into (replicate (unat n - 10) 0) mid = Some (got, rest)"
    and d: "d = h @ got" "last d = ETX"
    unfolding read_package_Inr_conv by blast
  have len: "length h = 10" "length got = unat n - 10"
    using read_into_bytes(1) [OF h] read_into_bytes(1) [OF got] by simp_all
  have "head_len d = Uint32 (take 4 (drop 2 h))" "body_len d = Uint32 (take 4 (drop 6 h))"
    "d ! 0 = h ! 0" "d ! 1 = h ! 1"
    using len by (simp_all add: d head_len_def body_len_def nth_append)
  with n d len show ?thesis
    unfolding accepted_def check_header_Inr_conv by auto
qed

lemma read_loop_accepted: "d \<in> set (fst (read_loop segs)) \<Longrightarrow> accepted d"
proof (induction segs rule: read_loop.induct)
  case (1 segs)
  show ?case
  proof (cases "read_package segs")
    case (Inl e)
    with "1.prems" show ?thesis by (simp add: read_loop_Inl)
  next
    case (Inr r)
    obtain d' rest where r: "r = (d', rest)" by (cases r)
    from "1.IH" [OF Inr [unfolded r] refl] "1.prems" read_package_accepted [OF Inr [unfolded r]]
    show ?thesis by (auto simp: read_loop_Inr [OF Inr [unfolded r]])
  qed
qed

text \<open>An accepted package whose lengths do not wrap around is the frame of two payloads.\<close>

definition no_wrap :: "byte list \<Rightarrow> bool" where
  "no_wrap d \<longleftrightarrow> 11 + unat (head_len d) + unat (body_len d) < 2 ^ 32"

lemma accepted_no_wrap_length:
  assumes "accepted d" "no_wrap d"
  shows "length d = 11 + unat (head_len d) + unat (body_len d)"
proof -
  have "unat (11 + head_len d + body_len d) = 11 + unat (head_len d) + unat (body_len d)"
    using assms(2) by (simp add: no_wrap_def unat_word_ariths)
  with assms(1) show ?thesis by (simp add: accepted_def)
qed

lemma drop_last: "length xs = Suc n \<Longrightarrow> drop n xs = [last xs]"
  by (metis append_butlast_last_id append_eq_conv_conj diff_Suc_1 length_0_conv length_butlast
      nat.distinct(1))

lemma take_10_split:
  assumes "10 \<le> length d"
  shows "take 10 d = [d ! 0, d ! 1] @ take 4 (drop 2 d) @ take 4 (drop 6 d)"
proof -
  have "take 10 d = take 2 d @ take 4 (drop 2 d) @ take 4 (drop 6 d)"
    using take_add [of 2 8 d] take_add [of 4 4 "drop 2 d"] by simp
  moreover have "take 2 d = [d ! 0, d ! 1]"
    using assms by (cases d; cases "tl d") auto
  ultimately show ?thesis by simp
qed

lemma accepted_is_frame:
  assumes "accepted d" "no_wrap d"
  obtains fmt hb bb where "d = frame fmt hb bb" "known_format fmt" "fits hb bb"
    "length hb \<le> unat HEAD_MAX_LEN"
proof
  let ?hl = "unat (head_len d)" and ?bl = "unat (body_len d)"
  let ?hb = "take ?hl (drop 10 d)" and ?bb = "take ?bl (drop (10 + ?hl) d)"
  note len = accepted_no_wrap_length [OF assms]
  have long: "10 \<le> length d" and stx: "d ! 0 = STX"
    using assms(1) by (simp_all add: accepted_def)
  show "known_format (d ! 1)" using assms(1) by (simp add: accepted_def)
  show "fits ?hb ?bb" using len assms(2) by (simp add: fits_def no_wrap_def)
  have "?hl \<le> unat HEAD_MAX_LEN"
    using assms(1) by (simp add: accepted_def word_le_nat_alt)
  then show "length ?hb \<le> unat HEAD_MAX_LEN" by simp
  have "drop (10 + ?hl + ?bl) d = [ETX]"
    using len assms(1) drop_last [of d "10 + ?hl + ?bl"] by (simp add: accepted_def)
  moreover have "drop 10 d = ?hb @ ?bb @ drop (10 + ?hl + ?bl) d"
    using append_take_drop_id [of ?hl "drop 10 d"] append_take_drop_id [of ?bl "drop (10 + ?hl) d"]
    by (simp add: add.commute add.left_commute)
  moreover have "take 10 d = [STX, d ! 1] @ PutUint32 (head_len d) @ PutUint32 (body_len d)"
    using long stx by (simp add: take_10_split head_len_def body_len_def PutUint32_Uint32)
  moreover have "length ?hb = ?hl" "length ?bb = ?bl"
    using len by simp_all
  then have "of_nat (length ?hb) = head_len d" "of_nat (length ?bb) = body_len d"
    by simp_all
  moreover have "d = take 10 d @ drop 10 d" by simp
  ultimately show "d = frame (d ! 1) ?hb ?bb"
    unfolding frame_def by (simp only: append.assoc append_Cons append_Nil)
qed

text \<open>So the decoders never panic on such a package.\<close>

lemma accepted_split_returns:
  assumes "accepted d" "no_wrap d"
  shows "returns (split_frame d)"
proof -
  obtain fmt hb bb where "d = frame fmt hb bb" "fits hb bb"
    using assms by (rule accepted_is_frame)
  then show ?thesis by (simp add: split_frame_frame)
qed

subsection \<open>Streams of whole frames\<close>

definition sendable :: "byte list \<Rightarrow> bool" where
  "sendable d \<longleftrightarrow>
     (\<exists>fmt hb bb. d = frame fmt hb bb \<and> known_format fmt \<and> length hb \<le> unat HEAD_MAX_LEN \<and>
        11 + length hb + length bb < 2 ^ 32)"

lemma unat_of_nat_uint32: "n < 2 ^ 32 \<Longrightarrow> unat (of_nat n :: uint32) = n"
  by (simp add: unat_of_nat)

lemma sendable_fields:
  assumes "sendable d"
  shows "10 < length d" and "d ! 0 = STX" and "known_format (d ! 1)" and "last d = ETX"
    and "head_len d \<le> HEAD_MAX_LEN"
    and "unat (11 + head_len d + body_len d) = length d"
proof -
  from assms obtain fmt hb bb where d: "d = frame fmt hb bb" and fmt: "known_format fmt"
    and lim: "length hb \<le> unat HEAD_MAX_LEN" "11 + length hb + length bb < 2 ^ 32"
    by (auto simp: sendable_def)
  show "10 < length d" by (simp add: d length_frame)
  show "d ! 0 = STX" "known_format (d ! 1)" "last d = ETX"
    using fmt by (auto simp: d frame_def)
  have hl: "head_len d = of_nat (length hb)" and bl: "body_len d = of_nat (length bb)"
    using slice_append3 [of 6 "[STX, fmt] @ PutUint32 (of_nat (length hb))" 10
        "PutUint32 (of_nat (length bb))" "hb @ bb @ [ETX]"]
    by (simp_all add: d frame_def head_len_def body_len_def slice_def)
  show "head_len d \<le> HEAD_MAX_LEN"
    using lim by (simp add: hl word_le_nat_alt unat_of_nat_uint32)
  have "11 + head_len d + body_len d = of_nat (11 + length hb + length bb)"
    by (simp add: hl bl)
  then show "unat (11 + head_len d + body_len d) = length d"
    using lim(2) by (simp only: unat_of_nat_uint32) (simp add: d length_frame)
qed

text \<open>A frame that is available in one segment is read whole.\<close>

lemma read_into_prefix:
  assumes "xs \<noteq> []" "length buf = length xs"
  shows "read_into buf ((xs @ ys) # ss) = Some (xs, if ys = [] then ss else ys # ss)"
  using assms by (simp add: read_into_def tcp_read_Cons)

lemma read_package_frame:
  assumes "sendable d"
  shows "read_package ((d @ extra) # ss) = Inr (d, if extra = [] then ss else extra # ss)"
proof -
  note f = sendable_fields [OF assms]
  let ?h = "take 10 d" and ?t = "drop 10 d"
  have ht: "d = ?h @ ?t" and t: "?t \<noteq> []" using f(1) by simp_all
  have 1: "read_into (replicate 10 0) ((d @ extra) # ss) = Some (?h, (?t @ extra) # ss)"
    using f(1) t by (subst ht) (subst append.assoc, subst read_into_prefix, auto)
  have 2: "check_header ?h = Inr (11 + head_len d + body_len d)"
    using f unfolding check_header_Inr_conv by (auto simp: head_len_def body_len_def drop_take)
  have 3: "read_into (replicate (length d - 10) 0) ((?t @ extra) # ss)
             = Some (?t, if extra = [] then ss else extra # ss)"
    using t by (rule read_into_prefix) simp
  show ?thesis
    unfolding read_package_Inr_conv using 1 2 3 f(1,4,6) ht by force
qed

lemma read_loop_segment:
  "\<forall>d \<in> set ds. sendable d \<Longrightarrow> ds \<noteq> [] \<Longrightarrow>
     read_loop (concat ds # ss) = (ds @ fst (read_loop ss), snd (read_loop ss))"
proof (induction ds)
  case Nil
  then show ?case by simp
next
  case (Cons d ds)
  then have p: "read_package ((d @ concat ds) # ss) =
      Inr (d, if concat ds = [] then ss else concat ds # ss)"
    by (simp only: read_package_frame list.set_intros)
  show ?case
  proof (cases "ds = []")
    case True
    with p show ?thesis by (simp add: read_loop_Inr)
  next
    case False
    then obtain d' ds' where ds: "ds = d' # ds'" by (cases ds) auto
    with Cons.prems(1) have "concat ds \<noteq> []"
      using sendable_fields(1) [of d'] by auto
    with p have "read_package ((d @ concat ds) # ss) = Inr (d, concat ds # ss)"
      by presburger
    from read_loop_Inr [OF this] False Cons show ?thesis by simp
  qed
qed

text \<open>Any number of segments, each holding whole frames, are dispatched in order.\<close>

lemma read_loop_segments:
  assumes "\<forall>ds \<in> set segs. ds \<noteq> [] \<and> (\<forall>d \<in> set ds. sendable d)"
  shows "read_loop (map concat segs) = (concat segs, PeerClosed)"
  using assms by (induction segs) (auto simp: read_loop_segment)

subsection \<open>Streams that are cut inside a frame\<close>

text \<open>
  A frame whose first byte arrives alone is rejected: \<open>Read\<close> returns the one byte, the other
  nine of the prefetch buffer stay zero, so the loop sees a msgpack package of length 11 and
  takes the frame's second byte for its end mark.
\<close>

lemma read_package_cut:
  assumes "sendable d"
  shows "read_package ([hd d] # tl d # ss) = Inl (InvalidEtx (d ! 1))"
proof -
  note f = sendable_fields [OF assms]
  obtain a b t where d: "d = a # b # t"
    using f(1) by (cases d; cases "tl d") auto
  have a: "a = STX" and b: "b = FORMAT_MSGPACK \<or> b = FORMAT_JSON"
    using f(2,3) by (simp_all add: d)
  have 1: "read_into (replicate 10 0) ([a] # (b # t) # ss) = Some (STX # replicate 9 0, (b # t) # ss)"
    by (simp add: a read_into_def tcp_read_Cons numeral_eq_Suc)
  have z: "Uint32 (replicate 4 0) = 0"
    by (simp add: Uint32_def numeral_eq_Suc)
  have 2: "check_header (STX # replicate 9 0) = Inr 11"
    using z unfolding check_header_Inr_conv
    by (simp add: numeral_eq_Suc pkg_consts HEAD_MAX_LEN_def)
  have 3: "read_into [0] ((b # t) # ss) = Some ([b], if t = [] then ss else t # ss)"
    using read_into_prefix [of "[b]" "[0]" t ss] by simp
  have pad: "take 11 (STX # replicate 9 0) @ replicate (11 - length (STX # replicate 9 0)) 0
               = STX # replicate 10 0"
    by (simp add: numeral_eq_Suc)
  have "slice (STX # replicate 10 0) 10 (length (STX # replicate 10 0)) = Ret [0]"
    by (simp add: slice_def)
  moreover have "take 10 (STX # replicate 10 0) @ [b] = (STX # replicate 9 0) @ [b]"
    by (simp add: numeral_eq_Suc)
  moreover have "index ((STX # replicate 9 0) @ [b]) 10 = Ret b"
    by (simp add: index_def nth_append)
  moreover have "b \<noteq> ETX"
    using b by (auto simp: pkg_consts)
  ultimately have "read_rest (STX # replicate 9 0) 11 ((b # t) # ss) = Inl (InvalidEtx b)"
    using 3 pad by (simp add: read_rest_def Let_def)
  with 1 2 show ?thesis by (simp add: read_package_def d)
qed

subsection \<open>Properties\<close>

lemma sendableI:
  "known_format fmt \<Longrightarrow> length hb \<le> unat HEAD_MAX_LEN \<Longrightarrow> 11 + length hb + length bb < 2 ^ 32 \<Longrightarrow>
     sendable (frame fmt hb bb)"
  by (auto simp: sendable_def)

text \<open>
  C7: when every segment the socket delivers holds whole frames, the loop dispatches
  exactly the frames of the stream, in order, and ends because the peer closed.
\<close>

theorem read_loop_dispatches_frames:
  assumes "\<forall>ds \<in> set segs. ds \<noteq> [] \<and> (\<forall>d \<in> set ds. sendable d)"
  shows "read_loop (map concat segs) = (concat segs, PeerClosed)"
  using assms by (rule read_loop_segments)

theorem read_loop_dispatches_frames_witness:
  "read_loop (map concat [[frame 0 [7] [8, 9], frame 1 [] [3]], [frame 1 [1] []]])
     = ([frame 0 [7] [8, 9], frame 1 [] [3], frame 1 [1] []], PeerClosed)"
proof -
  have "sendable (frame 0 [7] [8, 9])" "sendable (frame 1 [] [3])" "sendable (frame 1 [1] [])"
    by (rule sendableI; simp add: pkg_consts HEAD_MAX_LEN_def)+
  then show ?thesis
    by (subst read_loop_dispatches_frames) simp_all
qed

text \<open>
  C9: whatever the socket delivers, a dispatched package whose declared lengths do not
  wrap around has passed every check of the loop and makes neither decoder panic.
\<close>

theorem dispatched_packages_decode:
  assumes "d \<in> set (fst (read_loop segs))" and "no_wrap d"
  shows "accepted d \<and> returns (DecodeWithBodyData cs d) \<and> returns (DecodeWithBody cs d)"
  using assms read_loop_accepted accepted_split_returns
  by (auto simp: DecodeWithBodyData_returns DecodeWithBody_returns)

theorem dispatched_packages_decode_witness:
  "\<exists>cs :: unit codecs. returns (DecodeWithBodyData cs (frame 1 [5] [6]))"
proof -
  have s: "sendable (frame 1 [5] [6])"
    by (rule sendableI) (simp_all add: pkg_consts HEAD_MAX_LEN_def)
  have "frame 1 [5] [6] \<in> set (fst (read_loop [frame 1 [5] [6]]))"
    using read_loop_segment [of "[frame 1 [5] [6]]" "[]"] s by simp
  moreover have "no_wrap (frame 1 [5] [6])"
    by (simp add: no_wrap_def head_len_def body_len_def frame_def PutUint32_def Uint32_def)
  ultimately show ?thesis
    using dispatched_packages_decode by blast
qed

definition wrapping_package :: "byte list" where
  "wrapping_package = [0x02, 0x00, 0x00, 0x00, 0x00, 0xFC, 0xFF, 0xFF, 0xFF, 0x03]"

lemma wrapping_package_fields:
  "head_len wrapping_package = 252" "body_len wrapping_package = 0xFFFFFF03"
  by (simp_all add: head_len_def body_len_def wrapping_package_def Uint32_def)

text \<open>
  The length check can be passed by wrapping around. Ten bytes that declare a head of
  252 bytes and a body of \<open>2 ^ 32 - 253\<close> bytes sum up to a package length of ten; the loop
  dispatches them, and the decoders run out of the slice.
\<close>

theorem wrapping_lengths_panic:
  "read_loop [wrapping_package] = ([wrapping_package], PeerClosed) \<and>
   DecodeWithBodyData cs wrapping_package = Panic SliceBounds \<and>
   DecodeWithBody cs wrapping_package = Panic SliceBounds"
proof -
  let ?w = wrapping_package
  have len: "length ?w = 10" by (simp add: wrapping_package_def)
  have 1: "read_into (replicate 10 0) [?w] = Some (?w, [])"
    using read_into_prefix [of ?w "replicate 10 0" "[]" "[]"] len
    by (simp add: wrapping_package_def)
  have 2: "check_header ?w = Inr 10"
    using wrapping_package_fields unfolding check_header_Inr_conv
    by (simp add: head_len_def body_len_def HEAD_MAX_LEN_def)
      (simp add: wrapping_package_def pkg_consts)
  have "read_package [?w] = Inr (?w, [])"
    unfolding read_package_Inr_conv
    using 1 2 by (auto simp: read_into_def wrapping_package_def pkg_consts)
  then have "read_loop [?w] = ([?w], PeerClosed)"
    by (simp add: read_loop_Inr)
  moreover have "split_frame ?w = Panic SliceBounds"
    using wrapping_package_fields
    by (simp add: split_frame_def slice_def index_def head_len_def body_len_def len Let_def)
  ultimately show ?thesis
    by (simp add: DecodeWithBodyData_def DecodeWithBody_def)
qed

text \<open>
  Framing depends on how TCP cuts the stream. A frame whose first byte is delivered
  alone is never dispatched: the loop takes its second byte for the end mark and closes the
  connection.
\<close>

theorem cut_frame_rejected:
  assumes "sendable d"
  shows "read_loop ([hd d] # tl d # ss) = ([], InvalidEtx (d ! 1))"
  using read_package_cut [OF assms] by (rule read_loop_Inl)

theorem cut_frame_rejected_witness:
  "read_loop [[2], tl (frame 1 [5] [6])] = ([], InvalidEtx 1)"
proof -
  have "sendable (frame 1 [5] [6])"
    by (rule sendableI) (simp_all add: pkg_consts HEAD_MAX_LEN_def)
  from cut_frame_rejected [OF this, of "[]"] show ?thesis
    by (simp add: frame_def pkg_consts)
qed

end
