(* ===== verification/Go_Float32.thy ===== *)
theory Go_Float32
  imports Go_Prelude "HOL-Library.Log_Nat"
begin

text \<open>
  The \<open>float32\<close> arithmetic the circuit breaker uses: conversion of an \<open>int64\<close>, division and
  comparison. A finite value is its rational number. Rounding is to nearest, ties to even,
  with a 24-bit significand; the magnitudes that occur (between \<open>2 ^ -63\<close> and \<open>2 ^ 63\<close>, or
  zero) are far from the subnormal and the overflow range, which the model does not treat.
\<close>

datatype float32 = Fin rat | PosInf | NegInf | NaN

fun f32_less :: "float32 \<Rightarrow> float32 \<Rightarrow> bool" where
  "f32_less NaN _ = False"
| "f32_less _ NaN = False"
| "f32_less (Fin a) (Fin b) = (a < b)"
| "f32_less NegInf y = (y \<noteq> NegInf)"
| "f32_less x PosInf = (x \<noteq> PosInf)"
| "f32_less _ _ = False"

definition pow2 :: "int \<Rightarrow> rat" where
  "pow2 e = (if 0 \<le> e then 2 ^ nat e else 1 / 2 ^ nat (- e))"

text \<open>Round to the nearest integer, a tie to the even one.\<close>

definition rne :: "rat \<Rightarrow> int" where
  "rne q = (let f = \<lfloor>q\<rfloor>; r = q - of_int f in
              if r < 1 / 2 \<or> (r = 1 / 2 \<and> even f) then f else f + 1)"

text \<open>The exponent of the last of the 24 significant bits of a positive number.\<close>

definition f32_exp :: "rat \<Rightarrow> int" where
  "f32_exp q = (case quotient_of q of (a, b) \<Rightarrow>
     let e = bitlen a - bitlen b in (if q < pow2 e then e - 1 else e) - 23)"

definition f32_round_pos :: "rat \<Rightarrow> rat" where
  "f32_round_pos q = (let e = f32_exp q in of_int (rne (q / pow2 e)) * pow2 e)"

definition f32_round :: "rat \<Rightarrow> rat" where
  "f32_round q =
     (if q = 0 then 0 else if 0 < q then f32_round_pos q else - f32_round_pos (- q))"

definition f32_of_int :: "int \<Rightarrow> float32" where
  "f32_of_int n = Fin (f32_round (of_int n))"

fun f32_div :: "float32 \<Rightarrow> float32 \<Rightarrow> float32" where
  "f32_div (Fin a) (Fin b) =
     (if b = 0 then (if a = 0 then NaN else if 0 < a then PosInf else NegInf)
      else Fin (f32_round (a / b)))"
| "f32_div (Fin a) PosInf = Fin 0"
| "f32_div (Fin a) NegInf = Fin 0"
| "f32_div PosInf (Fin b) = (if 0 \<le> b then PosInf else NegInf)"
| "f32_div NegInf (Fin b) = (if 0 \<le> b then NegInf else PosInf)"
| "f32_div _ _ = NaN"

section \<open>Powers of two and the exponent\<close>

lemma pow2_pos [simp]: "0 < pow2 e"
  by (simp add: pow2_def)

lemma pow2_nonzero [simp]: "pow2 e \<noteq> 0"
  using pow2_pos [of e] by linarith

lemma pow2_powr: "pow2 e = 2 powi e"
  by (simp add: pow2_def power_int_def power_one_over)

lemma pow2_add: "pow2 (a + b) = pow2 a * pow2 b"
  by (simp add: pow2_powr power_int_add)

lemma pow2_mono: "a \<le> b \<Longrightarrow> pow2 a \<le> pow2 b"
  by (simp add: pow2_powr power_int_increasing)

lemma pow2_less: "a < b \<Longrightarrow> pow2 a < pow2 b"
  by (simp add: pow2_powr power_int_strict_increasing)

lemma pow2_less_iff: "pow2 a < pow2 b \<longleftrightarrow> a < b"
  using pow2_less pow2_mono by (meson linorder_not_le)

lemma pow2_numeral [simp]: "pow2 0 = 1" "pow2 1 = 2" "pow2 (numeral n) = 2 ^ numeral n"
  "pow2 (- numeral n) = 1 / 2 ^ numeral n" "pow2 (-1) = 1 / 2"
  by (simp_all add: pow2_def)

lemma bitlen_bounds_pow2:
  assumes "0 < a"
  shows "pow2 (bitlen a - 1) \<le> of_int a" and "of_int a < pow2 (bitlen a)"
proof -
  have b: "1 \<le> bitlen a"
    using assms by (simp add: bitlen_def floorlog_def)
  have "2 ^ nat (bitlen a - 1) \<le> a \<and> a < 2 ^ nat (bitlen a)"
    using bitlen_bounds [OF assms] .
  then have "(2::rat) ^ nat (bitlen a - 1) \<le> of_int a \<and> (of_int a :: rat) < 2 ^ nat (bitlen a)"
    by (metis of_int_le_iff of_int_less_iff of_int_numeral of_int_power)
  then show "pow2 (bitlen a - 1) \<le> of_int a" and "of_int a < pow2 (bitlen a)"
    using b by (simp_all add: pow2_def)
qed

lemma f32_exp_bounds:
  assumes "0 < q"
  shows "pow2 (f32_exp q + 23) \<le> q" and "q < pow2 (f32_exp q + 24)"
proof -
  obtain a b where ab: "quotient_of q = (a, b)" by (cases "quotient_of q")
  then have b: "0 < b" and q: "q = of_int a / of_int b"
    using quotient_of_denom_pos quotient_of_div by auto
  with assms have a: "0 < a"
    by (simp add: zero_less_divide_iff)
  let ?e = "bitlen a - bitlen b"
  note A = bitlen_bounds_pow2 [OF a] and B = bitlen_bounds_pow2 [OF b]
  have "q < pow2 (?e + 1)"
  proof -
    have "of_int a < pow2 (?e + 1) * pow2 (bitlen b - 1)"
      using A(2) by (simp flip: pow2_add)
    also have "\<dots> \<le> pow2 (?e + 1) * of_int b"
      using B(1) by (intro mult_left_mono) (simp_all add: less_imp_le)
    finally show ?thesis using b by (simp add: q divide_less_eq)
  qed
  moreover have "pow2 (?e - 1) \<le> q"
  proof -
    have "pow2 (?e - 1) * of_int b \<le> pow2 (?e - 1) * pow2 (bitlen b)"
      using B(2) by (intro mult_left_mono) (simp_all add: less_imp_le)
    also have "\<dots> \<le> of_int a"
      using A(1) by (simp flip: pow2_add)
    finally show ?thesis using b by (simp add: q le_divide_eq)
  qed
  ultimately show "pow2 (f32_exp q + 23) \<le> q" and "q < pow2 (f32_exp q + 24)"
    by (simp_all add: f32_exp_def ab Let_def add.commute)
qed

lemma f32_exp_less: "0 < q \<Longrightarrow> q < pow2 k \<Longrightarrow> f32_exp q + 23 < k"
  using f32_exp_bounds(1) [of q] pow2_less_iff by (meson le_less_trans)

lemma f32_exp_ge: "0 < q \<Longrightarrow> pow2 k \<le> q \<Longrightarrow> k < f32_exp q + 24"
  using f32_exp_bounds(2) [of q] pow2_less_iff by (meson le_less_trans)

section \<open>Rounding\<close>

lemma rne_int [simp]: "rne (of_int n) = n"
  by (simp add: rne_def)

lemma rne_le: "q \<le> of_int n \<Longrightarrow> rne q \<le> n"
  by (auto simp: rne_def Let_def floor_less_iff le_floor_iff) linarith+

lemma rne_ge: "of_int n - 1 / 2 < q \<Longrightarrow> n \<le> rne q"
  by (auto simp: rne_def Let_def) linarith+

lemma f32_round_pos_exact:
  assumes "q / pow2 (f32_exp q) = of_int n"
  shows "f32_round_pos q = q"
proof -
  have "f32_round_pos q = of_int n * pow2 (f32_exp q)"
    by (simp only: f32_round_pos_def Let_def assms rne_int)
  also have "\<dots> = q"
    unfolding assms [symmetric] by simp
  finally show ?thesis .
qed

text \<open>Integers of up to 24 bits are exact.\<close>

lemma f32_of_int_exact:
  assumes "0 \<le> n" "n < 2 ^ 24"
  shows "f32_of_int n = Fin (of_int n)"
proof (cases "n = 0")
  case False
  with assms have n: "0 < n" by simp
  have "(of_int n :: rat) < pow2 24"
    using assms(2) by simp
  then have "f32_exp (of_int n) \<le> 0"
    using f32_exp_less [of "of_int n" 24] n by simp
  then have "of_int n / pow2 (f32_exp (of_int n)) = (of_int (n * 2 ^ nat (- f32_exp (of_int n))) :: rat)"
    by (simp add: pow2_def)
  from f32_round_pos_exact [OF this] n show ?thesis
    by (simp add: f32_of_int_def f32_round_def)
qed (simp add: f32_of_int_def f32_round_def)

text \<open>Rounding never crosses one half.\<close>

lemma f32_round_le_half:
  assumes "0 < q" "q \<le> 1 / 2"
  shows "f32_round_pos q \<le> 1 / 2"
proof (cases "q = 1 / 2")
  case True
  have "f32_exp (1 / 2) = - 24"
    using f32_exp_less [of "1 / 2" 0] f32_exp_ge [of "1 / 2" "- 1"] by simp
  then have "f32_round_pos (1 / 2) = 1 / 2"
    using f32_round_pos_exact [of "1 / 2" "2 ^ 23"] by simp
  then show ?thesis unfolding True by simp
next
  case False
  let ?e = "f32_exp q"
  have "?e + 23 < - 1"
    using f32_exp_less [of q "- 1"] assms False by simp
  then have e: "?e + 24 \<le> - 1" by simp
  have "q / pow2 ?e \<le> of_int (2 ^ 24)"
    using f32_exp_bounds(2) [OF assms(1)] by (simp add: pow2_add divide_le_eq mult.commute)
  then have "rne (q / pow2 ?e) \<le> 2 ^ 24"
    by (rule rne_le)
  then have "of_int (rne (q / pow2 ?e)) \<le> (2 ^ 24 :: rat)"
    by (metis of_int_le_iff of_int_numeral of_int_power)
  then have "f32_round_pos q \<le> pow2 24 * pow2 ?e"
    unfolding f32_round_pos_def Let_def
    by (intro mult_right_mono) (simp_all add: less_imp_le)
  also have "\<dots> = pow2 (?e + 24)"
    by (simp add: pow2_add mult.commute)
  also have "\<dots> \<le> pow2 (- 1)"
    using e by (rule pow2_mono)
  finally show ?thesis by simp
qed

lemma f32_round_gt_half:
  assumes "1 / 2 + 1 / 2 ^ 25 < q"
  shows "1 / 2 < f32_round_pos q"
proof (cases "q < 1")
  case True
  have "f32_exp q = - 24"
    using f32_exp_less [of q 0] f32_exp_ge [of q "- 1"] True assms by simp
  moreover have "of_int (2 ^ 23 + 1) - 1 / 2 < q / pow2 (- 24)"
    using assms by (simp add: field_simps)
  then have "2 ^ 23 + 1 \<le> rne (q / pow2 (- 24))"
    by (rule rne_ge)
  then have "of_int (2 ^ 23 + 1) \<le> (of_int (rne (q / pow2 (- 24))) :: rat)"
    by (rule of_int_le_iff [THEN iffD2])
  ultimately show ?thesis
    by (simp add: f32_round_pos_def)
next
  case False
  let ?e = "f32_exp q"
  have "0 < q" and e: "- 23 \<le> ?e"
    using f32_exp_ge [of q 0] False by simp_all
  have "of_int (2 ^ 23) \<le> q / pow2 ?e"
    using f32_exp_bounds(1) [OF \<open>0 < q\<close>] by (simp add: pow2_add le_divide_eq mult.commute)
  then have "of_int (2 ^ 23) - 1 / 2 < q / pow2 ?e"
    by linarith
  then have "2 ^ 23 \<le> rne (q / pow2 ?e)"
    by (rule rne_ge)
  then have "(2 ^ 23 :: rat) \<le> of_int (rne (q / pow2 ?e))"
    by (metis of_int_le_iff of_int_numeral of_int_power)
  then have "pow2 23 * pow2 ?e \<le> f32_round_pos q"
    unfolding f32_round_pos_def Let_def
    by (intro mult_right_mono) (simp_all add: less_imp_le)
  moreover have "pow2 0 \<le> pow2 (23 + ?e)"
    using e by (intro pow2_mono) simp
  ultimately show ?thesis
    by (simp add: pow2_add)
qed

text \<open>
  Below \<open>2 ^ 24\<close> the quotient of two counts compares with one half as the exact fraction
  does.
\<close>

lemma f32_ratio_half:
  assumes "0 \<le> a" "a < 2 ^ 24" "0 < b" "b < 2 ^ 24"
  shows "f32_less (Fin (1 / 2)) (f32_div (f32_of_int a) (f32_of_int b)) \<longleftrightarrow> b < 2 * a"
proof (cases "a = 0")
  case True
  with assms show ?thesis
    by (simp add: f32_of_int_exact f32_round_def)
next
  case False
  let ?q = "of_int a / of_int b :: rat"
  have q: "0 < ?q" using False assms by simp
  have "1 / 2 < f32_round_pos ?q \<longleftrightarrow> b < 2 * a"
  proof (cases "b < 2 * a")
    case True
    then have "b + 1 \<le> 2 * a" by simp
    then have "of_int (b + 1) \<le> (of_int (2 * a) :: rat)"
      by (rule of_int_le_iff [THEN iffD2])
    then have "of_int b + 1 \<le> (2 * of_int a :: rat)" by simp
    moreover have "(of_int b :: rat) < 2 ^ 24"
      using assms(4) by (metis of_int_less_iff of_int_numeral of_int_power)
    moreover have "(2 :: rat) ^ 24 = 16777216" "(1 / 2 + 1 / 2 ^ 25 :: rat) = 16777217 / 33554432"
      by simp_all
    ultimately have "(16777217 / 33554432) * of_int b < (of_int a :: rat)"
      by linarith
    then have "16777217 / 33554432 < ?q"
      using assms(3) by (subst pos_less_divide_eq) simp_all
    then have "1 / 2 + 1 / 2 ^ 25 < ?q"
      by simp
    then show ?thesis using f32_round_gt_half True by simp
  next
    case False
    then have "of_int (2 * a) \<le> (of_int b :: rat)"
      by (intro of_int_le_iff [THEN iffD2]) simp
    then have "?q \<le> 1 / 2"
      using assms(3) by (simp add: divide_le_eq)
    with f32_round_le_half [OF q] False show ?thesis by simp
  qed
  with q assms show ?thesis
    by (simp add: f32_of_int_exact f32_round_def)
qed

end
