(* ===== verification/Circuit_Breaker.thy ===== *)
theory Circuit_Breaker
  imports Go_Float32
begin

text \<open>
  The circuit breaker (\<open>circuit_breaker.go\<close>): the statistics of one breaker (\<open>cb_info\<close>),
  the registry of breakers (\<open>cb_state\<close>), \<open>CbConfigure\<close> and \<open>CbCall\<close>.

  The clock reading, the random draw of the half-open state and the results of the caller's
  \<open>run\<close> and \<open>fail\<close> functions are arguments. The part of \<open>CbCall\<close> between \<open>lock.Lock()\<close>
  and \<open>lock.Unlock()\<close> is one function, \<open>cb_admit\<close>; the atomic increments around \<open>run\<close>
  happen outside the lock and are separate steps of the concurrent model \<open>cb_do\<close>.
\<close>

section \<open>State\<close>

definition CB_FAIL_RATE :: float32 where "CB_FAIL_RATE = Fin (f32_round (5 / 10))"
definition CB_LIMIT_RATE :: float32 where "CB_LIMIT_RATE = Fin (f32_round (2 / 10))"
definition CB_COUNT_BASE :: int where "CB_COUNT_BASE = 10"
definition CB_FAIL_TIME :: int where "CB_FAIL_TIME = 30000"
definition CB_LIMIT_TIME :: int where "CB_LIMIT_TIME = 30000"
definition CB_RESET_TIME :: int where "CB_RESET_TIME = 60000"
definition CB_STATUS_OPEN :: int where "CB_STATUS_OPEN = 1"
definition CB_STATUS_CLOSE :: int where "CB_STATUS_CLOSE = 0"
definition CB_STATUS_LIMIT :: int where "CB_STATUS_LIMIT = 2"

lemmas cb_status_defs = CB_STATUS_OPEN_def CB_STATUS_CLOSE_def CB_STATUS_LIMIT_def

record cb_info =
  invokeCount :: int
  failCount :: int
  lastCircuitBreakerTime :: int
  lastLimitPassTime :: int
  lastResetTime :: int
  status :: int
  failRate :: float32
  limitRate :: float32
  countBase :: int
  failTime :: int
  limitTime :: int
  resetTime :: int

record cb_state =
  cbInfos :: "string \<rightharpoonup> cb_info"
  cbMutexes :: "string set"

definition cb_init :: cb_state where
  "cb_init = \<lparr>cbInfos = Map.empty, cbMutexes = {}\<rparr>"

text \<open>Both entry points find or create the breaker under the global mutex.\<close>

definition cb_find :: "string \<Rightarrow> cb_info \<Rightarrow> cb_state \<Rightarrow> cb_info \<times> cb_state" where
  "cb_find cbName fresh st =
     (let st = st\<lparr>cbMutexes := insert cbName (cbMutexes st)\<rparr> in
      case cbInfos st cbName of
        None \<Rightarrow> (fresh, st\<lparr>cbInfos := (cbInfos st)(cbName \<mapsto> fresh)\<rparr>)
      | Some info \<Rightarrow> (info, st))"

definition CbConfigure ::
    "string \<Rightarrow> float32 \<Rightarrow> float32 \<Rightarrow> int \<Rightarrow> int \<Rightarrow> int \<Rightarrow> int \<Rightarrow> int \<Rightarrow> cb_state \<Rightarrow> cb_state" where
  "CbConfigure cbName frate lrate base ftime ltime rtime timeNow st =
     (let (info, st) = cb_find cbName
            \<lparr>invokeCount = 1, failCount = 0, lastCircuitBreakerTime = 0, lastLimitPassTime = 0,
             lastResetTime = timeNow, status = CB_STATUS_CLOSE, failRate = frate,
             limitRate = lrate, countBase = base, failTime = ftime, limitTime = ltime,
             resetTime = rtime\<rparr> st;
          info = info\<lparr>failRate := frate, limitRate := lrate, countBase := base,
                      failTime := ftime, limitTime := ltime, resetTime := rtime\<rparr>
      in st\<lparr>cbInfos := (cbInfos st)(cbName \<mapsto> info)\<rparr>)"

definition cb_default :: "int \<Rightarrow> cb_info" where
  "cb_default timeNow =
     \<lparr>invokeCount = 1, failCount = 0, lastCircuitBreakerTime = 0, lastLimitPassTime = 0,
      lastResetTime = timeNow, status = CB_STATUS_CLOSE, failRate = CB_FAIL_RATE,
      limitRate = CB_LIMIT_RATE, countBase = CB_COUNT_BASE, failTime = CB_FAIL_TIME,
      limitTime = CB_LIMIT_TIME, resetTime = CB_RESET_TIME\<rparr>"

section \<open>The locked part of CbCall\<close>

text \<open>An expired break makes the breaker half open.\<close>

definition cb_half_open :: "int \<Rightarrow> cb_info \<Rightarrow> cb_info" where
  "cb_half_open timeNow info =
     (if status info = CB_STATUS_OPEN \<and> i64 (lastCircuitBreakerTime info + failTime info) < timeNow
      then info\<lparr>status := CB_STATUS_LIMIT, failCount := 0, invokeCount := 1,
                lastLimitPassTime := timeNow, lastCircuitBreakerTime := 0\<rparr>
      else info)"

definition cb_ptFlag :: "float32 \<Rightarrow> cb_info \<Rightarrow> bool" where
  "cb_ptFlag draw info =
     (if status info = CB_STATUS_OPEN then False
      else if status info = CB_STATUS_LIMIT then f32_less draw (limitRate info)
      else True)"

definition cb_over :: "cb_info \<Rightarrow> bool" where
  "cb_over info \<longleftrightarrow>
     f32_less (failRate info) (f32_div (f32_of_int (failCount info)) (f32_of_int (invokeCount info)))
     \<and> countBase info < invokeCount info"

definition cb_close :: "int \<Rightarrow> cb_info \<Rightarrow> cb_info" where
  "cb_close timeNow info =
     (if status info = CB_STATUS_LIMIT \<and> i64 (lastLimitPassTime info + limitTime info) < timeNow
      then info\<lparr>status := CB_STATUS_CLOSE, invokeCount := 1, failCount := 0, lastLimitPassTime := 0\<rparr>
      else info)"

definition cb_reset :: "int \<Rightarrow> cb_info \<Rightarrow> cb_info" where
  "cb_reset timeNow info =
     (if status info = CB_STATUS_CLOSE \<and> i64 (lastResetTime info + resetTime info) < timeNow
      then info\<lparr>lastResetTime := timeNow, failCount := 0, invokeCount := 1\<rparr>
      else info)"

definition cb_admit :: "int \<Rightarrow> float32 \<Rightarrow> cb_info \<Rightarrow> cb_info \<times> bool" where
  "cb_admit timeNow draw info =
     (let info = cb_half_open timeNow info in
      if \<not> cb_ptFlag draw info then (info, False)
      else if cb_over info then
        (info\<lparr>status := CB_STATUS_OPEN, lastCircuitBreakerTime := timeNow\<rparr>, False)
      else (cb_reset timeNow (cb_close timeNow info), True))"

section \<open>CbCall\<close>

text \<open>
  \<open>run\<close> and \<open>fail\<close> are the errors the two functions would return; \<open>fail = None\<close> is a nil
  function. The result says whether \<open>run\<close> was called, and the returned error.
\<close>

definition CbCall ::
    "string \<Rightarrow> int \<Rightarrow> float32 \<Rightarrow> go_error option \<Rightarrow> go_error option option \<Rightarrow> cb_state
       \<Rightarrow> cb_state \<times> bool \<times> go_error option" where
  "CbCall cbName timeNow draw run fail st =
     (let (info, st) = cb_find cbName (cb_default timeNow) st;
          (info, pass) = cb_admit timeNow draw info in
      if \<not> pass then
        (st\<lparr>cbInfos := (cbInfos st)(cbName \<mapsto> info)\<rparr>, False,
         case fail of None \<Rightarrow> None | Some err \<Rightarrow> err)
      else
        (let info = info\<lparr>invokeCount := i64 (invokeCount info + 1)\<rparr>;
             info = (if run \<noteq> None then info\<lparr>failCount := i64 (failCount info + 1)\<rparr> else info) in
         (st\<lparr>cbInfos := (cbInfos st)(cbName \<mapsto> info)\<rparr>, True, run)))"

section \<open>The three states\<close>

text \<open>The automaton the breaker implements.\<close>

inductive breaker_step :: "int \<Rightarrow> int \<Rightarrow> bool" where
  breaker_stay: "breaker_step s s"
| breaker_trip: "breaker_step CB_STATUS_CLOSE CB_STATUS_OPEN"
| breaker_expire: "breaker_step CB_STATUS_OPEN CB_STATUS_LIMIT"
| breaker_trip_again: "breaker_step CB_STATUS_LIMIT CB_STATUS_OPEN"
| breaker_recover: "breaker_step CB_STATUS_LIMIT CB_STATUS_CLOSE"

inductive_simps breaker_step_from_open: "breaker_step CB_STATUS_OPEN s"
inductive_simps breaker_step_from_close: "breaker_step CB_STATUS_CLOSE s"

text \<open>A configuration and a time for which the code's sums do not overflow.\<close>

definition cb_sane :: "int \<Rightarrow> cb_info \<Rightarrow> bool" where
  "cb_sane timeNow info \<longleftrightarrow>
     status info \<in> {CB_STATUS_OPEN, CB_STATUS_CLOSE, CB_STATUS_LIMIT} \<and>
     \<not> f32_less (failRate info) (Fin 0) \<and>
     0 \<le> limitTime info \<and> 0 \<le> timeNow \<and> timeNow + limitTime info < 2 ^ 63"

lemma fresh_not_over:
  "failCount info = 0 \<Longrightarrow> invokeCount info = 1 \<Longrightarrow> \<not> f32_less (failRate info) (Fin 0) \<Longrightarrow>
     \<not> cb_over info"
  by (simp add: cb_over_def f32_of_int_exact f32_round_def)

lemma cb_admit_from_open:
  assumes "status info = CB_STATUS_OPEN" "cb_sane timeNow info"
  shows "cb_admit timeNow draw info =
           (if i64 (lastCircuitBreakerTime info + failTime info) < timeNow
            then (cb_half_open timeNow info, f32_less draw (limitRate info))
            else (info, False))"
proof -
  have "i64 (timeNow + limitTime info) = timeNow + limitTime info"
    using assms(2) by (intro i64_id) (simp add: cb_sane_def)
  moreover have "\<not> cb_over (cb_half_open timeNow info)"
    if "i64 (lastCircuitBreakerTime info + failTime info) < timeNow"
    using that assms by (intro fresh_not_over) (simp_all add: cb_half_open_def cb_sane_def)
  ultimately show ?thesis
    using assms
    by (auto simp: cb_admit_def cb_half_open_def cb_ptFlag_def cb_close_def cb_reset_def
        cb_status_defs cb_sane_def Let_def)
qed

lemma cb_admit_from_other:
  assumes "status info \<noteq> CB_STATUS_OPEN"
  shows "cb_admit timeNow draw info =
           (if \<not> cb_ptFlag draw info then (info, False)
            else if cb_over info then
              (info\<lparr>status := CB_STATUS_OPEN, lastCircuitBreakerTime := timeNow\<rparr>, False)
            else (cb_reset timeNow (cb_close timeNow info), True))"
  using assms by (simp add: cb_admit_def cb_half_open_def)

lemma cb_status_after:
  "status (cb_reset t info) = status info"
  "status (cb_close t info) = CB_STATUS_CLOSE \<or> status (cb_close t info) = status info"
  by (simp_all add: cb_reset_def cb_close_def)

lemma cb_admit_status:
  assumes "cb_sane timeNow info" "cb_admit timeNow draw info = (info', pass)"
  shows "breaker_step (status info) (status info')"
    and "pass \<Longrightarrow> status info' \<noteq> CB_STATUS_OPEN" and "\<not> pass \<Longrightarrow> status info' \<noteq> CB_STATUS_CLOSE"
proof -
  consider (opened) "status info = CB_STATUS_OPEN" | (closed) "status info = CB_STATUS_CLOSE"
    | (limited) "status info = CB_STATUS_LIMIT"
    using assms(1) by (auto simp: cb_sane_def)
  then have "breaker_step (status info) (status info') \<and> (pass \<longrightarrow> status info' \<noteq> CB_STATUS_OPEN)
    \<and> (\<not> pass \<longrightarrow> status info' \<noteq> CB_STATUS_CLOSE)"
  proof cases
    case opened
    with assms show ?thesis
      by (auto simp: cb_admit_from_open cb_half_open_def cb_status_defs split: if_splits
          intro: breaker_step.intros [unfolded cb_status_defs])
  next
    case closed
    with assms(2) show ?thesis
      by (auto simp: cb_admit_from_other cb_status_after(1) cb_close_def cb_ptFlag_def
          cb_status_defs split: if_splits intro: breaker_step.intros [unfolded cb_status_defs])
  next
    case limited
    with assms(2) show ?thesis
      by (auto simp: cb_admit_from_other cb_status_after(1) cb_close_def cb_status_defs
          split: if_splits intro: breaker_step.intros [unfolded cb_status_defs])
  qed
  then show "breaker_step (status info) (status info')"
    and "pass \<Longrightarrow> status info' \<noteq> CB_STATUS_OPEN" and "\<not> pass \<Longrightarrow> status info' \<noteq> CB_STATUS_CLOSE"
    by auto
qed

text \<open>Everything \<open>CbCall\<close> does to the state of its breaker, in terms of \<open>cb_admit\<close>.\<close>

definition cb_count :: "go_error option \<Rightarrow> cb_info \<Rightarrow> cb_info" where
  "cb_count run info =
     info\<lparr>invokeCount := i64 (invokeCount info + 1),
          failCount := (if run = None then failCount info else i64 (failCount info + 1))\<rparr>"

lemma CbCall_eq:
  assumes "cbInfos st n = Some info" "cb_admit t draw info = (info', pass)"
  shows "CbCall n t draw run fail st =
     (\<lparr>cbInfos = (cbInfos st)(n \<mapsto> (if pass then cb_count run info' else info')),
       cbMutexes = insert n (cbMutexes st)\<rparr>,
      pass, if pass then run else (case fail of None \<Rightarrow> None | Some err \<Rightarrow> err))"
  using assms by (cases st) (auto simp: CbCall_def cb_find_def cb_count_def Let_def)

lemma CbCall_fresh:
  assumes "cbInfos st n = None" "cb_admit t draw (cb_default t) = (info', pass)"
  shows "CbCall n t draw run fail st =
     (\<lparr>cbInfos = (cbInfos st)(n \<mapsto> (if pass then cb_count run info' else info')),
       cbMutexes = insert n (cbMutexes st)\<rparr>,
      pass, if pass then run else (case fail of None \<Rightarrow> None | Some err \<Rightarrow> err))"
  using assms by (cases st) (auto simp: CbCall_def cb_find_def cb_count_def Let_def)

lemma CB_FAIL_RATE_eq [simp]: "CB_FAIL_RATE = Fin (1 / 2)"
proof -
  have "f32_round_pos (1 / 2) = 1 / 2"
  proof (rule f32_round_pos_exact)
    have "f32_exp (1 / 2) = - 24"
      using f32_exp_less [of "1 / 2" 0] f32_exp_ge [of "1 / 2" "- 1"] by simp
    then show "1 / 2 / pow2 (f32_exp (1 / 2)) = of_int (2 ^ 23)" by simp
  qed
  then show ?thesis by (simp add: CB_FAIL_RATE_def f32_round_def)
qed

section \<open>Sequences of calls\<close>

record cb_call =
  callTime :: int
  callDraw :: float32
  callRun :: "go_error option"
  callFail :: "go_error option option"

text \<open>Calls of one breaker, one after the other: the final state and which calls did.\<close>

fun cb_calls :: "string \<Rightarrow> cb_call list \<Rightarrow> cb_state \<Rightarrow> cb_state \<times> bool list" where
  "cb_calls n [] st = (st, [])"
| "cb_calls n (c # cs) st =
     (let (st, did, err) = CbCall n (callTime c) (callDraw c) (callRun c) (callFail c) st;
          (st, rans) = cb_calls n cs st
      in (st, did # rans))"

definition cb_counts :: "int \<Rightarrow> cb_info \<Rightarrow> bool" where
  "cb_counts k info \<longleftrightarrow> 0 \<le> failCount info \<and> failCount info < invokeCount info \<and> invokeCount info \<le> k"

lemma cb_counts_mono: "cb_counts k info \<Longrightarrow> k \<le> l \<Longrightarrow> cb_counts l info"
  by (simp add: cb_counts_def)

lemma cb_counts_admit:
  assumes "cb_counts k info" "1 \<le> k" "cb_admit t draw info = (info', pass)"
  shows "cb_counts k info'"
  using assms
  by (auto simp: cb_admit_def cb_half_open_def cb_close_def cb_reset_def cb_counts_def Let_def
      split: if_splits)

lemma cb_counts_count:
  assumes "cb_counts k info" "k < 2 ^ 63 - 1"
  shows "cb_counts (k + 1) (cb_count run info)"
proof -
  have "i64 (invokeCount info + 1) = invokeCount info + 1" "i64 (failCount info + 1) = failCount info + 1"
    using assms by (auto simp: cb_counts_def intro!: i64_id)
  with assms show ?thesis
    by (simp add: cb_counts_def cb_count_def)
qed

lemma cb_counts_default: "1 \<le> k \<Longrightarrow> cb_counts k (cb_default t)"
  by (simp add: cb_counts_def cb_default_def)

lemma cb_counts_call:
  assumes "\<And>info. cbInfos st n = Some info \<Longrightarrow> cb_counts k info" "1 \<le> k" "k < 2 ^ 63 - 1"
    and "CbCall n t draw run fail st = (st', r)"
  shows "\<exists>info'. cbInfos st' n = Some info' \<and> cb_counts (k + 1) info'"
proof (cases "cbInfos st n")
  case None
  obtain info' pass where a: "cb_admit t draw (cb_default t) = (info', pass)"
    by (cases "cb_admit t draw (cb_default t)")
  have "cb_counts k info'"
    using cb_counts_admit [OF cb_counts_default _ a] assms(2) by simp
  then show ?thesis
    using CbCall_fresh [OF None a] assms(3,4) cb_counts_count cb_counts_mono [of k info' "k + 1"] by auto
next
  case (Some info)
  obtain info' pass where a: "cb_admit t draw info = (info', pass)"
    by (cases "cb_admit t draw info")
  have "cb_counts k info'"
    using cb_counts_admit [OF _ assms(2) a] assms(1) Some by simp
  then show ?thesis
    using CbCall_eq [OF Some a] assms(3,4) cb_counts_count cb_counts_mono [of k info' "k + 1"] by auto
qed

lemma cb_counts_calls:
  assumes "\<And>info. cbInfos st n = Some info \<Longrightarrow> cb_counts k info" "1 \<le> k"
    and "k + int (length cs) < 2 ^ 63"
    and "cb_calls n cs st = (st', rans)" "cbInfos st' n = Some info"
  shows "cb_counts (k + int (length cs)) info"
  using assms
proof (induction cs arbitrary: st k rans)
  case Nil
  then show ?case by simp
next
  case (Cons c cs)
  obtain st1 did err where c: "CbCall n (callTime c) (callDraw c) (callRun c) (callFail c) st = (st1, did, err)"
    by (cases "CbCall n (callTime c) (callDraw c) (callRun c) (callFail c) st") auto
  obtain rans' where r: "cb_calls n cs st1 = (st', rans')"
    using Cons.prems(4) c by (auto split: prod.splits)
  have "\<exists>info'. cbInfos st1 n = Some info' \<and> cb_counts (k + 1) info'"
    using cb_counts_call [OF Cons.prems(1,2) _ c] Cons.prems(3) by auto
  then have "cb_counts (k + 1 + int (length cs)) info"
    using Cons.prems by (intro Cons.IH [OF _ _ _ r]) auto
  then show ?case by (simp add: add.assoc)
qed

lemma cb_calls_append:
  "cb_calls n (xs @ ys) st =
     (let (st1, rs) = cb_calls n xs st; (st2, rs') = cb_calls n ys st1 in (st2, rs @ rs'))"
  by (induction xs arbitrary: st) (auto simp: Let_def split: prod.split)

subsection \<open>A run of failures\<close>

text \<open>
  A breaker that counts \<open>i\<close> calls, all failed, and is closed.
\<close>

definition failing :: "int \<Rightarrow> nat \<Rightarrow> cb_info" where
  "failing t0 i = (cb_default t0)\<lparr>invokeCount := 1 + int i, failCount := int i\<rparr>"

lemma failing_0: "cb_default t0 = failing t0 0"
  by (simp add: failing_def cb_default_def)

lemma cb_over_failing:
  assumes "i \<le> 10"
  shows "cb_over (failing t0 i) \<longleftrightarrow> i = 10"
proof -
  have "f32_less (Fin (1 / 2)) (f32_div (f32_of_int (int i)) (f32_of_int (1 + int i)))
          \<longleftrightarrow> 1 + int i < 2 * int i"
    using assms by (intro f32_ratio_half) simp_all
  with assms show ?thesis
    by (auto simp: cb_over_def failing_def cb_default_def CB_COUNT_BASE_def)
qed

lemma cb_admit_failing:
  assumes "i \<le> 10" "t \<le> t0 + CB_RESET_TIME" "0 \<le> t0" "t0 + CB_RESET_TIME < 2 ^ 63"
  shows "cb_admit t draw (failing t0 i) =
           (if i = 10 then ((failing t0 i)\<lparr>status := CB_STATUS_OPEN, lastCircuitBreakerTime := t\<rparr>, False)
            else (failing t0 i, True))"
proof -
  have "status (failing t0 i) = CB_STATUS_CLOSE"
    by (simp add: failing_def cb_default_def)
  moreover have "cb_reset t (failing t0 i) = failing t0 i" "cb_close t (failing t0 i) = failing t0 i"
    using assms i64_id [of "t0 + CB_RESET_TIME"]
    by (simp_all add: cb_reset_def cb_close_def failing_def cb_default_def cb_status_defs
        CB_RESET_TIME_def)
  ultimately show ?thesis
    using assms(1) cb_over_failing
    by (simp add: cb_admit_from_other cb_ptFlag_def cb_status_defs)
qed

lemma cb_count_failing:
  "i \<le> 10 \<Longrightarrow> cb_count (Some e) (failing t0 i) = failing t0 (Suc i)"
  by (simp add: cb_count_def failing_def cb_default_def i64_id)

lemma cb_calls_failing:
  assumes "cbInfos st n = Some (failing t0 i)" "i + length cs \<le> 10"
    and "\<forall>c \<in> set cs. callTime c \<le> t0 + CB_RESET_TIME \<and> callRun c \<noteq> None"
    and "0 \<le> t0" "t0 + CB_RESET_TIME < 2 ^ 63"
  shows "\<exists>st'. cb_calls n cs st = (st', replicate (length cs) True) \<and>
               cbInfos st' n = Some (failing t0 (i + length cs))"
  using assms
proof (induction cs arbitrary: st i)
  case Nil
  then show ?case by simp
next
  case (Cons c cs)
  obtain e where e: "callRun c = Some e" using Cons.prems(3) by auto
  have a: "cb_admit (callTime c) (callDraw c) (failing t0 i) = (failing t0 i, True)"
    using Cons.prems by (subst cb_admit_failing) auto
  let ?st = "\<lparr>cbInfos = (cbInfos st)(n \<mapsto> failing t0 (Suc i)), cbMutexes = insert n (cbMutexes st)\<rparr>"
  have c: "CbCall n (callTime c) (callDraw c) (callRun c) (callFail c) st = (?st, True, Some e)"
    using CbCall_eq [OF Cons.prems(1) a] Cons.prems(2) by (simp add: e cb_count_failing)
  have "\<exists>st'. cb_calls n cs ?st = (st', replicate (length cs) True) \<and>
              cbInfos st' n = Some (failing t0 (Suc i + length cs))"
    using Cons.prems by (intro Cons.IH) auto
  then show ?case using c by auto
qed

section \<open>Properties\<close>

text \<open>
  C12: the locked part of \<open>CbCall\<close> implements the breaker automaton. A call moves the
  status along one edge of it (closed, open, half open), a call that is let through never
  leaves the breaker open, and a call that is refused never leaves it closed.
\<close>

theorem cb_refines_automaton:
  assumes "cb_sane timeNow info" and "cb_admit timeNow draw info = (info', pass)"
  shows "breaker_step (status info) (status info') \<and>
         (if pass then status info' \<noteq> CB_STATUS_OPEN else status info' \<noteq> CB_STATUS_CLOSE)"
  using cb_admit_status [OF assms] by simp

theorem cb_refines_automaton_witness:
  "breaker_step CB_STATUS_OPEN
     (status (fst (cb_admit 30001 (Fin 0) ((cb_default 0)\<lparr>status := CB_STATUS_OPEN\<rparr>))))"
proof -
  let ?i = "(cb_default 0)\<lparr>status := CB_STATUS_OPEN\<rparr>"
  obtain info' pass where a: "cb_admit 30001 (Fin 0) ?i = (info', pass)"
    by (cases "cb_admit 30001 (Fin 0) ?i")
  have "cb_sane 30001 ?i"
    by (simp add: cb_sane_def cb_default_def CB_LIMIT_TIME_def)
  from cb_refines_automaton [OF this a] a show ?thesis by simp
qed

text \<open>
  C25: while a break lasts, \<open>CbCall\<close> does not call \<open>run\<close>: it returns what the fallback
  returns (nil without a fallback) and changes no statistic.
\<close>

theorem cb_open_rejects:
  assumes "cbInfos st n = Some info" "status info = CB_STATUS_OPEN" "cb_sane t info"
    and "t \<le> i64 (lastCircuitBreakerTime info + failTime info)"
  shows "CbCall n t draw run fail st =
           (st\<lparr>cbMutexes := insert n (cbMutexes st)\<rparr>, False,
            case fail of None \<Rightarrow> None | Some err \<Rightarrow> err)"
proof -
  have "cb_admit t draw info = (info, False)"
    using assms(4) by (simp add: cb_admit_from_open [OF assms(2,3)])
  moreover have "(cbInfos st)(n \<mapsto> info) = cbInfos st"
    using assms(1) by (auto simp: fun_eq_iff)
  ultimately show ?thesis
    using CbCall_eq [OF assms(1), of t draw info False run fail] by (cases st) simp
qed

theorem cb_open_rejects_witness:
  "snd (CbCall ''a'' 30000 (Fin 0) None (Some (Some ''busy''))
          (cb_init\<lparr>cbInfos := [''a'' \<mapsto> (cb_default 0)\<lparr>status := CB_STATUS_OPEN\<rparr>]\<rparr>))
     = (False, Some ''busy'')"
  by (subst cb_open_rejects [where info = "(cb_default 0)\<lparr>status := CB_STATUS_OPEN\<rparr>"])
    (simp_all add: cb_init_def cb_sane_def cb_default_def CB_LIMIT_TIME_def CB_FAIL_TIME_def i64_def)

text \<open>
  C24: with the default failure rate a closed breaker trips exactly when more than half of
  the counted calls failed and more than \<open>countBase\<close> calls are counted; the single precision
  division decides this as the exact fraction would, for counts below \<open>2 ^ 24\<close>.
\<close>

theorem cb_trips_on_majority:
  assumes "cbInfos st n = Some info" "status info = CB_STATUS_CLOSE" "failRate info = CB_FAIL_RATE"
    and "0 \<le> failCount info" "failCount info < 2 ^ 24"
    and "0 < invokeCount info" "invokeCount info < 2 ^ 24"
    and "CbCall n t draw run fail st = (st', did, err)"
  shows "(did \<longleftrightarrow> \<not> (invokeCount info < 2 * failCount info \<and> countBase info < invokeCount info)) \<and>
         (\<not> did \<longrightarrow> cbInfos st' n = Some (info\<lparr>status := CB_STATUS_OPEN, lastCircuitBreakerTime := t\<rparr>))"
proof -
  have over: "cb_over info \<longleftrightarrow> invokeCount info < 2 * failCount info \<and> countBase info < invokeCount info"
    using assms(3-7) by (simp add: cb_over_def f32_ratio_half)
  obtain info' pass where a: "cb_admit t draw info = (info', pass)"
    by (cases "cb_admit t draw info")
  then have "pass = (\<not> cb_over info)"
    and "\<not> pass \<Longrightarrow> info' = info\<lparr>status := CB_STATUS_OPEN, lastCircuitBreakerTime := t\<rparr>"
    using assms(2)
    by (auto simp: cb_admit_from_other cb_ptFlag_def cb_status_defs split: if_splits)
  with over CbCall_eq [OF assms(1) a] assms(8) show ?thesis by auto
qed

theorem cb_trips_on_majority_witness:
  "fst (snd (CbCall ''a'' 5 (Fin 0) None None
     (cb_init\<lparr>cbInfos := [''a'' \<mapsto> (cb_default 0)\<lparr>failCount := 7, invokeCount := 12\<rparr>]\<rparr>))) = False"
proof -
  let ?i = "(cb_default 0)\<lparr>failCount := 7, invokeCount := 12\<rparr>"
  let ?st = "cb_init\<lparr>cbInfos := [''a'' \<mapsto> ?i]\<rparr>"
  obtain st' did err where c: "CbCall ''a'' 5 (Fin 0) None None ?st = (st', did, err)"
    by (cases "CbCall ''a'' 5 (Fin 0) None None ?st") auto
  have "\<not> did"
    using cb_trips_on_majority [of ?st "''a''" ?i, OF _ _ _ _ _ _ _ c]
    by (simp add: cb_default_def CB_COUNT_BASE_def)
  then show ?thesis by (simp add: c)
qed

text \<open>
  When the calls of a breaker follow one another, it never counts more failures than
  calls (\<open>0 \<le> failCount < invokeCount\<close>), and it counts at most one call more than were made.
\<close>

theorem cb_counts_invariant:
  assumes "cbInfos st n = None" "int (length cs) < 2 ^ 63 - 1"
    and "cb_calls n cs st = (st', rans)" "cbInfos st' n = Some info"
  shows "0 \<le> failCount info \<and> failCount info < invokeCount info \<and>
         invokeCount info \<le> 1 + int (length cs)"
  using cb_counts_calls [of st n 1 cs st' rans info] assms by (simp add: cb_counts_def)

theorem cb_counts_invariant_witness:
  "\<exists>info. cbInfos (fst (cb_calls ''a'' [\<lparr>callTime = 1, callDraw = Fin 0, callRun = None, callFail = None\<rparr>]
            cb_init)) ''a'' = Some info \<and> failCount info < invokeCount info"
proof -
  let ?cs = "[\<lparr>callTime = 1, callDraw = Fin 0, callRun = None, callFail = None\<rparr>]"
  obtain st' rans where c: "cb_calls ''a'' ?cs cb_init = (st', rans)"
    by (cases "cb_calls ''a'' ?cs cb_init")
  then obtain info where i: "cbInfos st' ''a'' = Some info"
    by (auto simp: CbCall_def cb_find_def cb_init_def Let_def split: prod.splits if_splits)
  show ?thesis
    using cb_counts_invariant [OF _ _ c i] c i by (simp add: cb_init_def)
qed

text \<open>
  Ten failing calls in a row trip a new breaker. The first ten calls of a reset interval
  all run; the next one is refused, and the break begins at its time.
\<close>

theorem cb_opens_after_ten_failures:
  assumes "cbInfos st n = None" "length cs = 9" "0 \<le> t0" "t0 + CB_RESET_TIME < 2 ^ 63"
    and "\<forall>c \<in> set (c0 # cs @ [c1]). callTime c \<le> t0 + CB_RESET_TIME \<and> callRun c \<noteq> None"
    and "callTime c0 = t0"
  shows "\<exists>st'. cb_calls n (c0 # cs @ [c1]) st = (st', replicate 10 True @ [False]) \<and>
           (\<exists>info. cbInfos st' n = Some info \<and> status info = CB_STATUS_OPEN \<and>
                   lastCircuitBreakerTime info = callTime c1)"
proof -
  obtain e where e: "callRun c0 = Some e" using assms(5) by auto
  have a0: "cb_admit t0 (callDraw c0) (cb_default t0) = (failing t0 0, True)"
    using assms(3,4) unfolding failing_0 by (subst cb_admit_failing) (simp_all add: CB_RESET_TIME_def)
  define st1 where "st1 = \<lparr>cbInfos = (cbInfos st)(n \<mapsto> failing t0 1), cbMutexes = insert n (cbMutexes st)\<rparr>"
  have c0: "CbCall n (callTime c0) (callDraw c0) (callRun c0) (callFail c0) st = (st1, True, Some e)"
    using CbCall_fresh [OF assms(1), of "callTime c0"] a0 assms(6) cb_count_failing [of 0 e t0]
    by (simp add: e st1_def)
  obtain st2 where cs: "cb_calls n cs st1 = (st2, replicate 9 True)"
    and i2: "cbInfos st2 n = Some (failing t0 10)"
    using cb_calls_failing [of st1 n t0 1 cs] assms(2-5) by (auto simp: st1_def)
  have a1: "cb_admit (callTime c1) (callDraw c1) (failing t0 10) =
      ((failing t0 10)\<lparr>status := CB_STATUS_OPEN, lastCircuitBreakerTime := callTime c1\<rparr>, False)"
    using assms(3-5) by (subst cb_admit_failing) auto
  have "replicate 10 True = True # replicate 9 True" by (simp add: numeral_eq_Suc)
  with c0 cs CbCall_eq [OF i2 a1] show ?thesis
    by (simp add: cb_calls_append)
qed

theorem cb_opens_after_ten_failures_witness:
  "let c = \<lparr>callTime = 0, callDraw = Fin 0, callRun = Some ''e'', callFail = None\<rparr> in
   snd (cb_calls ''a'' (c # replicate 9 c @ [c]) cb_init) = replicate 10 True @ [False]"
proof -
  let ?c = "\<lparr>callTime = 0, callDraw = Fin 0, callRun = Some ''e'', callFail = None\<rparr>"
  have "\<exists>st'. cb_calls ''a'' (?c # replicate 9 ?c @ [?c]) cb_init = (st', replicate 10 True @ [False])"
    using cb_opens_after_ten_failures [of cb_init "''a''" "replicate 9 ?c" 0 ?c ?c]
    by (auto simp: cb_init_def CB_RESET_TIME_def)
  then show ?thesis by (auto simp: Let_def)
qed

section \<open>Concurrent calls of one breaker\<close>

text \<open>
  \<open>CbCall\<close> as three atomic steps: the locked part, the increment of \<open>invokeCount\<close>, and the
  return of \<open>run\<close> with the increment of \<open>failCount\<close>. \<open>entered\<close> counts the calls between the
  first and the second step, \<open>running\<close> those inside \<open>run\<close>; \<open>stale\<close> records how many calls
  were running when the statistics were last reset.
\<close>

record cb_conc =
  ccInfo :: cb_info
  entered :: nat
  running :: nat
  stale :: nat

datatype cb_action =
    Admit int float32
  | CountInvoke
  | Return "go_error option"

fun cb_do :: "cb_conc \<Rightarrow> cb_action \<Rightarrow> cb_conc option" where
  "cb_do c (Admit t draw) =
     (let (info, pass) = cb_admit t draw (ccInfo c) in
      Some (c\<lparr>ccInfo := info,
              entered := (if pass then Suc (entered c) else entered c),
              stale := (if invokeCount info = 1 \<and> failCount info = 0 \<and>
                           (invokeCount (ccInfo c), failCount (ccInfo c)) \<noteq> (1, 0)
                        then running c else stale c)\<rparr>))"
| "cb_do c CountInvoke =
     (if entered c = 0 then None
      else Some (c\<lparr>entered := entered c - 1, running := Suc (running c),
                   ccInfo := (ccInfo c)\<lparr>invokeCount := i64 (invokeCount (ccInfo c) + 1)\<rparr>\<rparr>))"
| "cb_do c (Return run) =
     (if running c = 0 then None
      else Some (c\<lparr>running := running c - 1,
                   ccInfo := (if run \<noteq> None
                              then (ccInfo c)\<lparr>failCount := i64 (failCount (ccInfo c) + 1)\<rparr>
                              else ccInfo c)\<rparr>))"

fun cb_run :: "cb_conc \<Rightarrow> cb_action list \<Rightarrow> cb_conc option" where
  "cb_run c [] = Some c"
| "cb_run c (e # es) = Option.bind (cb_do c e) (\<lambda>c. cb_run c es)"

definition cb_conc_init :: "int \<Rightarrow> cb_conc" where
  "cb_conc_init t = \<lparr>ccInfo = cb_default t, entered = 0, running = 0, stale = 0\<rparr>"

text \<open>The bound that holds whatever the interleaving, before the counters overflow.\<close>

definition cb_conc_inv :: "int \<Rightarrow> cb_conc \<Rightarrow> bool" where
  "cb_conc_inv k c \<longleftrightarrow>
     0 \<le> failCount (ccInfo c) \<and> 1 \<le> invokeCount (ccInfo c) \<and> invokeCount (ccInfo c) \<le> k \<and>
     failCount (ccInfo c) + int (running c) \<le> k \<and>
     failCount (ccInfo c) + int (running c) \<le> invokeCount (ccInfo c) - 1 + int (stale c)"

lemma cb_admit_counts:
  assumes "cb_admit t draw info = (info', pass)"
  shows "(invokeCount info' = 1 \<and> failCount info' = 0) \<or>
         (invokeCount info' = invokeCount info \<and> failCount info' = failCount info)"
  using assms
  by (auto simp: cb_admit_def cb_half_open_def cb_close_def cb_reset_def Let_def split: if_splits)

lemma cb_conc_step:
  assumes "cb_conc_inv k c" "k < 2 ^ 63 - 1" "cb_do c e = Some c'"
  shows "cb_conc_inv (k + 1) c'"
proof (cases e)
  case (Admit t draw)
  obtain info' pass where a: "cb_admit t draw (ccInfo c) = (info', pass)"
    by (cases "cb_admit t draw (ccInfo c)")
  from cb_admit_counts [OF a] assms show ?thesis
    by (auto simp: Admit a cb_conc_inv_def)
next
  case CountInvoke
  have "i64 (invokeCount (ccInfo c) + 1) = invokeCount (ccInfo c) + 1"
    using assms(1,2) by (intro i64_id) (simp add: cb_conc_inv_def)
  with CountInvoke assms show ?thesis
    by (auto simp: cb_conc_inv_def split: if_splits)
next
  case (Return run)
  have "i64 (failCount (ccInfo c) + 1) = failCount (ccInfo c) + 1"
    using assms(1,2) by (intro i64_id) (simp add: cb_conc_inv_def)
  with Return assms show ?thesis
    by (auto simp: cb_conc_inv_def split: if_splits)
qed

lemma cb_conc_steps:
  "cb_run c es = Some c' \<Longrightarrow> cb_conc_inv k c \<Longrightarrow> k + int (length es) < 2 ^ 63 \<Longrightarrow>
     cb_conc_inv (k + int (length es)) c'"
proof (induction es arbitrary: c k)
  case Nil
  then show ?case by simp
next
  case (Cons e es)
  obtain c1 where c1: "cb_do c e = Some c1" and r: "cb_run c1 es = Some c'"
    using Cons.prems(1) by (cases "cb_do c e") auto
  have "cb_conc_inv (k + 1) c1"
    using cb_conc_step [OF Cons.prems(2) _ c1] Cons.prems(3) by simp
  from Cons.IH [OF r this] Cons.prems(3) show ?case by (simp add: add.assoc)
qed

text \<open>
  C26: under any interleaving of the three steps of concurrent calls, the counted failures
  and the running calls stay below the counted calls plus the calls that were running at the
  last reset; without such calls the failure ratio is below one.
\<close>

theorem cb_concurrent_bound:
  assumes "cb_run (cb_conc_init t) es = Some c" and "int (length es) < 2 ^ 63 - 1"
  shows "0 \<le> failCount (ccInfo c) \<and>
         failCount (ccInfo c) + int (running c) < invokeCount (ccInfo c) + int (stale c)"
proof -
  have "cb_conc_inv 1 (cb_conc_init t)"
    by (simp add: cb_conc_inv_def cb_conc_init_def cb_default_def)
  with cb_conc_steps [OF assms(1) this] assms(2) show ?thesis
    by (simp add: cb_conc_inv_def)
qed

theorem cb_concurrent_bound_witness:
  "\<exists>c. cb_run (cb_conc_init 0) [Admit 0 (Fin 0), CountInvoke, Return (Some ''e'')] = Some c \<and>
       failCount (ccInfo c) < invokeCount (ccInfo c) + int (stale c)"
proof -
  have "cb_run (cb_conc_init 0) [Admit 0 (Fin 0), CountInvoke, Return (Some ''e'')] \<noteq> None"
    by code_simp
  then obtain c where c: "cb_run (cb_conc_init 0) [Admit 0 (Fin 0), CountInvoke, Return (Some ''e'')] = Some c"
    by blast
  from cb_concurrent_bound [OF c] c show ?thesis by auto
qed

text \<open>
  Thirteen calls enter before the reset interval ends and fail after the reset; the ten
  calls that are counted after the reset all succeed.
\<close>

definition stale_run :: "cb_action list" where
  "stale_run =
     concat (replicate 13 [Admit 0 (Fin 0), CountInvoke]) @ [Admit 60001 (Fin 0)] @
     replicate 13 (Return (Some ''e'')) @ [CountInvoke, Return None] @
     concat (replicate 9 [Admit 60002 (Fin 0), CountInvoke, Return None]) @
     [Admit 60003 (Fin 0)]"

text \<open>
  The reset forgets the calls that are still running, so their failures are charged
  against the new interval: a breaker opens although every call it counted since the reset
  succeeded, with more failures on record than calls.
\<close>

theorem cb_stale_failures_trip:
  "map_option (\<lambda>c. (status (ccInfo c), failCount (ccInfo c), invokeCount (ccInfo c)))
     (cb_run (cb_conc_init 0) stale_run) = Some (CB_STATUS_OPEN, 13, 11)"
  by code_simp

end
