(* ===== verification/Easy_Node.thy ===== *)
theory Easy_Node
  imports Go_Prelude
begin

text \<open>
  Service nodes (\<open>Node\<close> in \<open>node_manager.go\<close>). Nodes are shared by pointer between the
  node manager, the load balancer and the sessions, which update \<open>Active\<close> atomically; so
  they live in a heap, and everything else holds their addresses.
\<close>

record node =
  Ip :: string
  Port :: int
  Weight :: int
  Active :: int

type_synonym node_ref = nat
type_synonym node_heap = "node_ref \<Rightarrow> node"

text \<open>\<open>atomic.AddInt32(&node.Active, d)\<close>\<close>

definition add_active :: "node_ref \<Rightarrow> int \<Rightarrow> node_heap \<Rightarrow> node_heap" where
  "add_active r d h = h(r := (h r)\<lparr>Active := i32 (Active (h r) + d)\<rparr>)"

lemma Active_add_active:
  "Active (add_active r d h r') = (if r' = r then i32 (Active (h r) + d) else Active (h r'))"
  by (simp add: add_active_def)

end
