(* ===== verification/Load_Balancer.thy ===== *)
theory Load_Balancer
  imports Easy_Node
begin

unbundle bit_operations_syntax

text \<open>
  The client-side load balancer (\<open>load_balancer.go\<close>): five ways to pick a node. Random
  numbers come from a function \<open>draw\<close>, \<open>draw n\<close> being the result of \<open>rand.Intn(n)\<close>;
  re-seeding the generator has no other effect. The locale \<open>strategy\<close> is what the client
  needs of a way to pick.
\<close>

definition LB_ACTIVE :: int where "LB_ACTIVE = 1"
definition LB_RANDOM :: int where "LB_RANDOM = 2"
definition LB_HASH :: int where "LB_HASH = 3"
definition LB_ROUND_ROBIN :: int where "LB_ROUND_ROBIN = 4"
definition LB_RANDOM_WEIGHT :: int where "LB_RANDOM_WEIGHT = 5"

lemmas lb_types = LB_ACTIVE_def LB_RANDOM_def LB_HASH_def LB_ROUND_ROBIN_def LB_RANDOM_WEIGHT_def

record load_balancer =
  lbNodeList :: "node_ref list"
  lbSeq :: int

definition NewLoadBalancer :: load_balancer where
  "NewLoadBalancer = \<lparr>lbNodeList = [], lbSeq = 0\<rparr>"

definition SetNodes :: "node_ref list \<Rightarrow> load_balancer \<Rightarrow> load_balancer" where
  "SetNodes nodeList lb = lb\<lparr>lbNodeList := nodeList\<rparr>"

type_synonym pick = "(node_ref \<times> load_balancer) outcome"

definition Intn :: "(int \<Rightarrow> int) \<Rightarrow> int \<Rightarrow> int outcome" where
  "Intn draw n = (if n \<le> 0 then Panic IntnArgument else Ret (draw n))"

section \<open>The five strategies\<close>

definition getNodeByLoadBalanceRoundRobin :: "load_balancer \<Rightarrow> pick" where
  "getNodeByLoadBalanceRoundRobin lb =
     (let lb = lb\<lparr>lbSeq := i64 (lbSeq lb + 1)\<rparr>;
          len = int (length (lbNodeList lb)) in
      obind (go_rem (lbSeq lb) len) (\<lambda>i.
      obind (index (lbNodeList lb) i) (\<lambda>node.
        Ret (node, lb))))"

text \<open>The loop keeps the last index whose \<open>Active\<close> is the least so far.\<close>

fun active_loop :: "node_heap \<Rightarrow> node_ref list \<Rightarrow> int \<Rightarrow> int \<Rightarrow> int \<Rightarrow> int" where
  "active_loop h [] i active idx = idx"
| "active_loop h (p # ps) i active idx =
     (if active \<ge> Active (h p) then active_loop h ps (i + 1) (Active (h p)) i
      else active_loop h ps (i + 1) active idx)"

definition getNodeByLoadBalanceActive :: "node_heap \<Rightarrow> load_balancer \<Rightarrow> pick" where
  "getNodeByLoadBalanceActive h lb =
     (let len = int (length (lbNodeList lb)) in
      obind (index (lbNodeList lb) 0) (\<lambda>first.
        let idx = active_loop h (tl (lbNodeList lb)) 1 (Active (h first)) 0 in
        if idx = len - 1 then getNodeByLoadBalanceRoundRobin lb
        else obind (index (lbNodeList lb) idx) (\<lambda>node. Ret (node, lb))))"

definition getNodeByLoadBalanceRandom :: "(int \<Rightarrow> int) \<Rightarrow> load_balancer \<Rightarrow> pick" where
  "getNodeByLoadBalanceRandom draw lb =
     obind (Intn draw (int (length (lbNodeList lb)))) (\<lambda>i.
     obind (index (lbNodeList lb) i) (\<lambda>node. Ret (node, lb)))"

text \<open>\<open>crc32.ChecksumIEEE\<close>: the reflected polynomial \<open>0xEDB88320\<close>, bit by bit.\<close>

fun crc_bits :: "nat \<Rightarrow> uint32 \<Rightarrow> uint32" where
  "crc_bits 0 crc = crc"
| "crc_bits (Suc n) crc =
     crc_bits n (if crc AND 1 = 1 then drop_bit 1 crc XOR 0xEDB88320 else drop_bit 1 crc)"

fun crc_update :: "uint32 \<Rightarrow> byte list \<Rightarrow> uint32" where
  "crc_update crc [] = crc"
| "crc_update crc (b # bs) = crc_update (crc_bits 8 (crc XOR ucast b)) bs"

definition ChecksumIEEE :: "byte list \<Rightarrow> uint32" where
  "ChecksumIEEE bs = NOT (crc_update (NOT 0) bs)"

definition bytes_of :: "string \<Rightarrow> byte list" where
  "bytes_of s = map of_char s"

definition hashKey :: "string \<Rightarrow> uint32" where
  "hashKey key =
     (if length key < 64 then
        (let scratch = replicate 64 0;
             scratch = bytes_of key @ drop (length key) scratch
         in ChecksumIEEE (take (length key) scratch))
      else ChecksumIEEE (bytes_of key))"

definition getNodeByLoadBalanceHash :: "string \<Rightarrow> load_balancer \<Rightarrow> pick" where
  "getNodeByLoadBalanceHash routeKey lb =
     (let len = of_nat (length (lbNodeList lb)) :: uint32 in
      if len = 0 then Panic DivideByZero
      else obind (index (lbNodeList lb) (uint (hashKey routeKey mod len))) (\<lambda>node. Ret (node, lb)))"

fun weight_total :: "node_heap \<Rightarrow> node_ref list \<Rightarrow> int \<Rightarrow> int" where
  "weight_total h [] acc = acc"
| "weight_total h (p # ps) acc = weight_total h ps (i64 (acc + Weight (h p)))"

fun weight_loop :: "node_heap \<Rightarrow> node_ref list \<Rightarrow> int \<Rightarrow> node_ref option" where
  "weight_loop h [] random = None"
| "weight_loop h (p # ps) random =
     (let random = i64 (random - Weight (h p)) in
      if random \<le> 0 then Some p else weight_loop h ps random)"

definition getNodeByLoadBalanceRandomWeight ::
    "node_heap \<Rightarrow> (int \<Rightarrow> int) \<Rightarrow> load_balancer \<Rightarrow> pick" where
  "getNodeByLoadBalanceRandomWeight h draw lb =
     (let sum = weight_total h (lbNodeList lb) 0 in
      obind (Intn draw sum) (\<lambda>random.
        case weight_loop h (lbNodeList lb) random of
          Some node \<Rightarrow> Ret (node, lb)
        | None \<Rightarrow> obind (index (lbNodeList lb) 0) (\<lambda>node. Ret (node, lb))))"

definition GetNode ::
    "node_heap \<Rightarrow> (int \<Rightarrow> int) \<Rightarrow> int \<Rightarrow> string \<Rightarrow> load_balancer
       \<Rightarrow> ((go_error + node_ref) \<times> load_balancer) outcome" where
  "GetNode h draw loadBalanceType routeKey lb =
     (if lbNodeList lb = [] then Ret (Inl ''service not found'', lb)
      else
        (let found = (\<lambda>p. obind p (\<lambda>(node, lb). Ret (Inr node, lb))) in
         if loadBalanceType = LB_ACTIVE then found (getNodeByLoadBalanceActive h lb)
         else if loadBalanceType = LB_RANDOM then found (getNodeByLoadBalanceRandom draw lb)
         else if loadBalanceType = LB_RANDOM_WEIGHT then
           found (getNodeByLoadBalanceRandomWeight h draw lb)
         else if loadBalanceType = LB_ROUND_ROBIN then found (getNodeByLoadBalanceRoundRobin lb)
         else if loadBalanceType = LB_HASH then found (getNodeByLoadBalanceHash routeKey lb)
         else Ret (Inl ''invalid loadBalanceType'', lb)))"

section \<open>The contract of a strategy\<close>

locale strategy =
  fixes pick_node :: "load_balancer \<Rightarrow> pick"
    and ready :: "load_balancer \<Rightarrow> bool"
  assumes pick_member:
      "pick_node lb = Ret (n, lb') \<Longrightarrow> n \<in> set (lbNodeList lb) \<and> lbNodeList lb' = lbNodeList lb"
    and pick_returns: "ready lb \<Longrightarrow> lbNodeList lb \<noteq> [] \<Longrightarrow> returns (pick_node lb)"
begin

lemma pick_ready:
  assumes "ready lb" "lbNodeList lb \<noteq> []"
  obtains n lb' where "pick_node lb = Ret (n, lb')" "n \<in> set (lbNodeList lb)"
    "lbNodeList lb' = lbNodeList lb"
  using pick_returns [OF assms] pick_member by (cases "pick_node lb") auto

lemma found_ready:
  assumes "ready lb" "lbNodeList lb \<noteq> []"
  shows "\<exists>n lb'. obind (pick_node lb) (\<lambda>(node, lb). Ret (Inr node, lb)) = Ret (Inr n, lb') \<and>
           n \<in> set (lbNodeList lb) \<and> lbNodeList lb' = lbNodeList lb"
  using assms by (rule pick_ready) auto

end

subsection \<open>Round robin\<close>

definition seq_ready :: "load_balancer \<Rightarrow> bool" where
  "seq_ready lb \<longleftrightarrow> 0 \<le> lbSeq lb \<and> lbSeq lb < 2 ^ 63 - 1"

lemma round_robin_eq:
  assumes "seq_ready lb" "lbNodeList lb \<noteq> []"
  shows "getNodeByLoadBalanceRoundRobin lb =
           Ret (lbNodeList lb ! (nat (lbSeq lb + 1) mod length (lbNodeList lb)),
                lb\<lparr>lbSeq := lbSeq lb + 1\<rparr>)"
proof -
  let ?n = "length (lbNodeList lb)" and ?s = "lbSeq lb + 1"
  have "i64 ?s = ?s" and s: "0 \<le> ?s"
    using assms(1) by (simp_all add: seq_ready_def i64_id)
  moreover have "go_rem ?s (int ?n) = Ret (?s mod int ?n)"
    using s assms(2) by (intro go_rem_nonneg) simp_all
  moreover have "index (lbNodeList lb) (?s mod int ?n) = Ret (lbNodeList lb ! (nat ?s mod ?n))"
    using s assms(2) by (simp add: index_def nat_mod_distrib)
  ultimately show ?thesis
    by (simp add: getNodeByLoadBalanceRoundRobin_def Let_def)
qed

lemma round_robin_member:
  "getNodeByLoadBalanceRoundRobin lb = Ret (n, lb') \<Longrightarrow>
     n \<in> set (lbNodeList lb) \<and> lbNodeList lb' = lbNodeList lb"
  by (auto simp: getNodeByLoadBalanceRoundRobin_def Let_def obind_Ret_conv dest: index_Ret_mem)

interpretation round_robin: strategy getNodeByLoadBalanceRoundRobin seq_ready
  by unfold_locales (rule round_robin_member, assumption, simp add: round_robin_eq)

subsection \<open>Least active\<close>

text \<open>The last of the least active nodes.\<close>

definition least_active :: "node_heap \<Rightarrow> node_ref list \<Rightarrow> nat \<Rightarrow> bool" where
  "least_active h ps m \<longleftrightarrow>
     m < length ps \<and> (\<forall>j < length ps. Active (h (ps ! m)) \<le> Active (h (ps ! j))) \<and>
     (\<forall>j < length ps. m < j \<longrightarrow> Active (h (ps ! m)) < Active (h (ps ! j)))"

lemma least_active_snoc_new:
  assumes "least_active h qs k" "Active (h p) \<le> Active (h (qs ! k))"
  shows "least_active h (qs @ [p]) (length qs)"
  using assms by (fastforce simp: least_active_def nth_append less_Suc_eq)

lemma least_active_snoc_old:
  assumes "least_active h qs k" "\<not> Active (h p) \<le> Active (h (qs ! k))"
  shows "least_active h (qs @ [p]) k"
  using assms by (auto simp: least_active_def nth_append less_Suc_eq)

lemma active_loop_spec:
  "least_active h qs k \<Longrightarrow>
     \<exists>m. active_loop h ps (int (length qs)) (Active (h (qs ! k))) (int k) = int m \<and>
         least_active h (qs @ ps) m"
proof (induction ps arbitrary: qs k)
  case Nil
  then show ?case by auto
next
  case (Cons p ps)
  have k: "k < length qs" using Cons.prems by (simp add: least_active_def)
  show ?case
  proof (cases "Active (h p) \<le> Active (h (qs ! k))")
    case True
    from Cons.IH [OF least_active_snoc_new [OF Cons.prems True]] True show ?thesis
      by (simp add: add.commute)
  next
    case False
    from Cons.IH [OF least_active_snoc_old [OF Cons.prems False]] False k show ?thesis
      by (simp add: nth_append add.commute)
  qed
qed

lemma active_loop_least:
  assumes "ps = p # qs"
  obtains m where "active_loop h qs 1 (Active (h p)) 0 = int m" "least_active h ps m"
  using active_loop_spec [of h "[p]" 0 qs] assms by (auto simp: least_active_def)

lemma active_eq:
  assumes "least_active h (lbNodeList lb) m"
  shows "getNodeByLoadBalanceActive h lb =
           (if m = length (lbNodeList lb) - 1 then getNodeByLoadBalanceRoundRobin lb
            else Ret (lbNodeList lb ! m, lb))"
proof -
  obtain p qs where ps: "lbNodeList lb = p # qs"
    using assms by (cases "lbNodeList lb") (auto simp: least_active_def)
  obtain m' where m': "active_loop h qs 1 (Active (h p)) 0 = int m'" "least_active h (lbNodeList lb) m'"
    using active_loop_least [OF ps] by blast
  have "m' = m"
    using assms m'(2) unfolding least_active_def by (metis linorder_neqE_nat linorder_not_le)
  with m' ps show ?thesis
    by (auto simp: getNodeByLoadBalanceActive_def index_def least_active_def Let_def)
qed

lemma least_active_exists: "ps \<noteq> [] \<Longrightarrow> \<exists>m. least_active h ps m"
  by (metis active_loop_least neq_Nil_conv)

lemma active_member:
  assumes "getNodeByLoadBalanceActive h lb = Ret (n, lb')"
  shows "n \<in> set (lbNodeList lb) \<and> lbNodeList lb' = lbNodeList lb"
proof -
  have "lbNodeList lb \<noteq> []"
    using assms by (auto simp: getNodeByLoadBalanceActive_def index_def)
  then obtain m where m: "least_active h (lbNodeList lb) m"
    using least_active_exists by blast
  with assms show ?thesis
    by (auto simp: active_eq least_active_def split: if_splits dest: round_robin_member)
qed

lemma active_returns:
  assumes "seq_ready lb" "lbNodeList lb \<noteq> []"
  shows "returns (getNodeByLoadBalanceActive h lb)"
proof -
  obtain m where "least_active h (lbNodeList lb) m"
    using least_active_exists assms(2) by blast
  with assms show ?thesis by (simp add: active_eq round_robin_eq)
qed

interpretation active: strategy "getNodeByLoadBalanceActive h" seq_ready for h
  by unfold_locales (rule active_member, assumption, rule active_returns)

subsection \<open>Random and hash\<close>

definition draw_ok :: "(int \<Rightarrow> int) \<Rightarrow> bool" where
  "draw_ok draw \<longleftrightarrow> (\<forall>n > 0. 0 \<le> draw n \<and> draw n < n)"

lemma random_member:
  "getNodeByLoadBalanceRandom draw lb = Ret (n, lb') \<Longrightarrow>
     n \<in> set (lbNodeList lb) \<and> lbNodeList lb' = lbNodeList lb"
  by (auto simp: getNodeByLoadBalanceRandom_def obind_Ret_conv dest: index_Ret_mem)

lemma random_returns:
  assumes "draw_ok draw" "lbNodeList lb \<noteq> []"
  shows "returns (getNodeByLoadBalanceRandom draw lb)"
proof -
  let ?n = "int (length (lbNodeList lb))"
  have n: "0 < ?n" using assms(2) by simp
  then have "0 \<le> draw ?n \<and> draw ?n < ?n"
    using assms(1) unfolding draw_ok_def by blast
  with n show ?thesis
    by (simp only: getNodeByLoadBalanceRandom_def Intn_def index_def) simp
qed

interpretation random: strategy "getNodeByLoadBalanceRandom draw" "\<lambda>lb. draw_ok draw" for draw
  by unfold_locales (rule random_member, assumption, rule random_returns)

lemma length_bytes_of [simp]: "length (bytes_of s) = length s"
  by (simp add: bytes_of_def)

lemma hashKey_eq: "hashKey key = ChecksumIEEE (bytes_of key)"
  by (simp add: hashKey_def Let_def)

lemma hash_member:
  "getNodeByLoadBalanceHash key lb = Ret (n, lb') \<Longrightarrow>
     n \<in> set (lbNodeList lb) \<and> lbNodeList lb' = lbNodeList lb"
  by (auto simp: getNodeByLoadBalanceHash_def obind_Ret_conv Let_def split: if_splits
      dest: index_Ret_mem)

lemma hash_eq:
  assumes "lbNodeList lb \<noteq> []" "length (lbNodeList lb) < 2 ^ 32"
  shows "getNodeByLoadBalanceHash key lb =
     Ret (lbNodeList lb ! (unat (ChecksumIEEE (bytes_of key)) mod length (lbNodeList lb)), lb)"
proof -
  let ?n = "length (lbNodeList lb)" and ?h = "ChecksumIEEE (bytes_of key)"
  have n: "unat (of_nat ?n :: uint32) = ?n"
    using assms(2) by (simp add: unat_of_nat)
  then have "(of_nat ?n :: uint32) \<noteq> 0"
    using assms(1) by (metis length_0_conv unat_0)
  moreover have "uint (?h mod of_nat ?n) = int (unat ?h mod ?n)"
    by (metis n of_nat_mod of_nat_unat uint_mod)
  moreover have "unat ?h mod ?n < ?n"
    using assms(1) by simp
  ultimately show ?thesis
    by (simp add: getNodeByLoadBalanceHash_def hashKey_eq index_def Let_def)
qed

interpretation hash: strategy "getNodeByLoadBalanceHash key" "\<lambda>lb. length (lbNodeList lb) < 2 ^ 32" for key
  by unfold_locales (rule hash_member, assumption, simp add: hash_eq)

subsection \<open>Random weight\<close>

definition weight_sum :: "node_heap \<Rightarrow> node_ref list \<Rightarrow> int" where
  "weight_sum h ps = sum_list (map (\<lambda>p. Weight (h p)) ps)"

definition weights_ok :: "node_heap \<Rightarrow> node_ref list \<Rightarrow> bool" where
  "weights_ok h ps \<longleftrightarrow> list_all (\<lambda>p. 0 \<le> Weight (h p)) ps \<and> 0 < weight_sum h ps \<and> weight_sum h ps < 2 ^ 63"

lemma weight_sum_simps [simp]:
  "weight_sum h [] = 0" "weight_sum h (p # ps) = Weight (h p) + weight_sum h ps"
  "weight_sum h (ps @ qs) = weight_sum h ps + weight_sum h qs"
  by (simp_all add: weight_sum_def)

lemma weight_sum_nonneg: "list_all (\<lambda>p. 0 \<le> Weight (h p)) ps \<Longrightarrow> 0 \<le> weight_sum h ps"
  by (induction ps) auto

lemma weight_total_eq:
  "list_all (\<lambda>p. 0 \<le> Weight (h p)) ps \<Longrightarrow> 0 \<le> acc \<Longrightarrow> acc + weight_sum h ps < 2 ^ 63 \<Longrightarrow>
     weight_total h ps acc = acc + weight_sum h ps"
proof (induction ps arbitrary: acc)
  case (Cons p ps)
  have "0 \<le> weight_sum h ps" using Cons.prems by (simp add: weight_sum_nonneg)
  with Cons have "i64 (acc + Weight (h p)) = acc + Weight (h p)"
    by (intro i64_id) simp
  with Cons show ?case by (simp add: add.assoc)
qed simp

text \<open>
  The draw \<open>r\<close> picks the first node at which the sum of the weights reaches \<open>r\<close>.
\<close>

lemma weight_loop_at:
  "list_all (\<lambda>p. 0 \<le> Weight (h p)) (xs @ p # ys) \<Longrightarrow> weight_sum h (xs @ p # ys) < 2 ^ 63 \<Longrightarrow>
   (xs = [] \<or> weight_sum h xs < r) \<Longrightarrow> 0 \<le> r \<Longrightarrow> r \<le> weight_sum h xs + Weight (h p) \<Longrightarrow>
     weight_loop h (xs @ p # ys) r = Some p"
proof (induction xs arbitrary: r)
  case Nil
  have "0 \<le> weight_sum h ys" using Nil by (simp add: weight_sum_nonneg)
  with Nil have "i64 (r - Weight (h p)) = r - Weight (h p)"
    by (intro i64_id) simp
  with Nil show ?case by (simp add: Let_def)
next
  case (Cons q xs)
  have "0 \<le> weight_sum h ys" "0 \<le> weight_sum h xs"
    using Cons.prems by (simp_all add: weight_sum_nonneg)
  with Cons.prems have "i64 (r - Weight (h q)) = r - Weight (h q)"
    by (intro i64_id) simp
  with Cons \<open>0 \<le> weight_sum h xs\<close> show ?case by (simp add: Let_def)
qed

lemma weight_loop_total:
  "list_all (\<lambda>p. 0 \<le> Weight (h p)) ps \<Longrightarrow> weight_sum h ps < 2 ^ 63 \<Longrightarrow> ps \<noteq> [] \<Longrightarrow>
     0 \<le> r \<Longrightarrow> r \<le> weight_sum h ps \<Longrightarrow> \<exists>p \<in> set ps. weight_loop h ps r = Some p"
proof (induction ps arbitrary: r)
  case (Cons p ps)
  have 0: "0 \<le> weight_sum h ps" using Cons.prems by (simp add: weight_sum_nonneg)
  with Cons.prems have r: "i64 (r - Weight (h p)) = r - Weight (h p)"
    by (intro i64_id) simp
  show ?case
  proof (cases "r \<le> Weight (h p)")
    case False
    with Cons.prems have "ps \<noteq> []" by auto
    with Cons False r 0 show ?thesis by (auto simp: Let_def)
  qed (use r in simp)
qed simp

lemma random_weight_eq:
  assumes "weights_ok h (lbNodeList lb)" "draw_ok draw"
  shows "\<exists>n \<in> set (lbNodeList lb).
           weight_loop h (lbNodeList lb) (draw (weight_sum h (lbNodeList lb))) = Some n \<and>
           getNodeByLoadBalanceRandomWeight h draw lb = Ret (n, lb)"
proof -
  let ?ps = "lbNodeList lb"
  have "weight_total h ?ps 0 = weight_sum h ?ps"
    using assms(1) weight_total_eq [of h ?ps 0] by (simp add: weights_ok_def)
  moreover have "?ps \<noteq> []" using assms(1) by (auto simp: weights_ok_def)
  moreover have "0 \<le> draw (weight_sum h ?ps)" "draw (weight_sum h ?ps) < weight_sum h ?ps"
    using assms by (simp_all add: weights_ok_def draw_ok_def)
  ultimately show ?thesis
    using weight_loop_total [of h ?ps "draw (weight_sum h ?ps)"] assms(1)
    by (auto simp: getNodeByLoadBalanceRandomWeight_def Intn_def weights_ok_def)
qed

lemma weight_loop_mem: "weight_loop h ps r = Some p \<Longrightarrow> p \<in> set ps"
  by (induction ps arbitrary: r) (auto simp: Let_def split: if_splits)

lemma random_weight_member:
  "getNodeByLoadBalanceRandomWeight h draw lb = Ret (n, lb') \<Longrightarrow>
     n \<in> set (lbNodeList lb) \<and> lbNodeList lb' = lbNodeList lb"
  by (auto simp: getNodeByLoadBalanceRandomWeight_def Let_def obind_Ret_conv split: option.splits
      dest: index_Ret_mem weight_loop_mem)

interpretation random_weight: strategy "getNodeByLoadBalanceRandomWeight h draw"
    "\<lambda>lb. weights_ok h (lbNodeList lb) \<and> draw_ok draw" for h draw
  by unfold_locales (rule random_weight_member, assumption, metis random_weight_eq returns.simps(1))

lemma GetNode_found:
  assumes "lbNodeList lb \<noteq> []" "seq_ready lb" "draw_ok draw" "length (lbNodeList lb) < 2 ^ 32"
    and "ty \<in> {LB_ACTIVE, LB_RANDOM, LB_HASH, LB_ROUND_ROBIN, LB_RANDOM_WEIGHT}"
    and "ty = LB_RANDOM_WEIGHT \<Longrightarrow> weights_ok h (lbNodeList lb)"
  shows "\<exists>n lb'. GetNode h draw ty key lb = Ret (Inr n, lb') \<and> n \<in> set (lbNodeList lb) \<and>
           lbNodeList lb' = lbNodeList lb"
proof -
  note found = active.found_ready [of lb h, OF assms(2,1)] random.found_ready [of draw lb, OF assms(3,1)]
    hash.found_ready [of lb key, OF assms(4,1)] round_robin.found_ready [OF assms(2,1)]
    random_weight.found_ready [of h lb draw, OF _ assms(1)]
  from assms(5) consider "ty = LB_ACTIVE" | "ty = LB_RANDOM" | "ty = LB_HASH"
    | "ty = LB_ROUND_ROBIN" | "ty = LB_RANDOM_WEIGHT" by auto
  then show ?thesis
    by cases (use found assms(1,3,6) in \<open>simp_all add: GetNode_def lb_types\<close>)
qed

text \<open>A pick moves the counter by at most one.\<close>

lemma GetNode_seq:
  assumes "GetNode h draw ty key lb = Ret (r, lb')" "seq_ready lb"
  shows "lbSeq lb' = lbSeq lb \<or> lbSeq lb' = lbSeq lb + 1"
proof (cases "lbNodeList lb = []")
  case False
  have "getNodeByLoadBalanceRoundRobin lb = Ret (n, lb1) \<Longrightarrow> lbSeq lb1 = lbSeq lb + 1" for n lb1
    using round_robin_eq [OF assms(2) False] by auto
  with assms(1) False show ?thesis
    by (auto simp: GetNode_def getNodeByLoadBalanceActive_def getNodeByLoadBalanceRandom_def getNodeByLoadBalanceHash_def
        getNodeByLoadBalanceRandomWeight_def Let_def obind_Ret_conv split: if_splits option.splits)
qed (use assms(1) in \<open>simp add: GetNode_def\<close>)

section \<open>Properties\<close>


text \<open>Two nodes of weight one.\<close>

abbreviation two_nodes :: "int \<Rightarrow> int \<Rightarrow> node_heap" where
  "two_nodes a b \<equiv> (\<lambda>r. \<lparr>Ip = ''10.0.0.1'', Port = 80, Weight = 1, Active = (if r = 0 then a else b)\<rparr>)"


text \<open>The nodes that \<open>n\<close> consecutive round-robin picks return.\<close>

fun round_robin_picks :: "nat \<Rightarrow> load_balancer \<Rightarrow> node_ref list outcome" where
  "round_robin_picks 0 lb = Ret []"
| "round_robin_picks (Suc n) lb =
     obind (getNodeByLoadBalanceRoundRobin lb) (\<lambda>(node, lb).
     obind (round_robin_picks n lb) (\<lambda>nodes. Ret (node # nodes)))"

lemma round_robin_picks_eq:
  "0 \<le> lbSeq lb \<Longrightarrow> lbSeq lb + int n < 2 ^ 63 \<Longrightarrow> lbNodeList lb \<noteq> [] \<Longrightarrow>
     round_robin_picks n lb = Ret (map (\<lambda>k. lbNodeList lb !
        ((nat (lbSeq lb + 1) + k) mod length (lbNodeList lb))) [0..<n])"
proof (induction n arbitrary: lb)
  case (Suc n)
  have r: "getNodeByLoadBalanceRoundRobin lb =
      Ret (lbNodeList lb ! (nat (lbSeq lb + 1) mod length (lbNodeList lb)), lb\<lparr>lbSeq := lbSeq lb + 1\<rparr>)"
    using Suc.prems by (intro round_robin_eq) (simp_all add: seq_ready_def)
  have "nat (lbSeq lb + 1 + 1) = Suc (nat (lbSeq lb + 1))"
    using Suc.prems by simp
  then show ?case
    using Suc.IH [of "lb\<lparr>lbSeq := lbSeq lb + 1\<rparr>"] Suc.prems
    by (simp add: r upt_conv_Cons map_Suc_upt [symmetric] comp_def del: upt_Suc)
qed simp

text \<open>
  C13: round robin is fair: as many consecutive picks as there are nodes return every node
  once, in list order, starting after the last one picked.
\<close>

theorem round_robin_fair:
  assumes "0 \<le> lbSeq lb" "lbSeq lb + int (length (lbNodeList lb)) < 2 ^ 63" "lbNodeList lb \<noteq> []"
  shows "round_robin_picks (length (lbNodeList lb)) lb
           = Ret (rotate (nat (lbSeq lb + 1)) (lbNodeList lb))"
proof -
  have "map (\<lambda>k. lbNodeList lb ! ((nat (lbSeq lb + 1) + k) mod length (lbNodeList lb)))
          [0..<length (lbNodeList lb)] = rotate (nat (lbSeq lb + 1)) (lbNodeList lb)"
    by (rule nth_equalityI) (simp_all add: nth_rotate)
  then show ?thesis
    by (simp only: round_robin_picks_eq [OF assms])
qed

theorem round_robin_fair_witness:
  "round_robin_picks 3 \<lparr>lbNodeList = [10, 20, 30], lbSeq = 4\<rparr> = Ret [30, 10, 20]"
  using round_robin_fair [of "\<lparr>lbNodeList = [10, 20, 30], lbSeq = 4\<rparr>"]
  by (simp add: numeral_eq_Suc)

text \<open>
  Hashing is a function of the key and the list alone: it picks the node at the CRC-32
  of the key modulo the number of nodes and changes nothing, whichever branch of \<open>hashKey\<close>
  the length of the key selects.
\<close>

theorem hash_pick_stable:
  assumes "lbNodeList lb \<noteq> []" "length (lbNodeList lb) < 2 ^ 32"
  shows "GetNode h draw LB_HASH key lb =
           Ret (Inr (lbNodeList lb ! (unat (ChecksumIEEE (bytes_of key)) mod length (lbNodeList lb))), lb)"
  using assms by (simp add: GetNode_def hash_eq lb_types)

theorem hash_pick_stable_witness:
  "GetNode (two_nodes 0 0) (\<lambda>_. 0) LB_HASH ''123456789'' \<lparr>lbNodeList = [7, 8, 9], lbSeq = 0\<rparr>
     = Ret (Inr 9, \<lparr>lbNodeList = [7, 8, 9], lbSeq = 0\<rparr>)"
proof -
  let ?lb = "\<lparr>lbNodeList = [7, 8, 9], lbSeq = 0\<rparr>"
  have "ChecksumIEEE (bytes_of ''123456789'') = 0xCBF43926"
    by code_simp
  then have "unat (ChecksumIEEE (bytes_of ''123456789'')) = 0xCBF43926"
    by simp
  moreover have "length (lbNodeList ?lb) = 3" "(0xCBF43926 :: nat) mod 3 = 2" "lbNodeList ?lb ! 2 = 9"
    by simp_all
  moreover have "GetNode (two_nodes 0 0) (\<lambda>_. 0) LB_HASH ''123456789'' ?lb =
      Ret (Inr (lbNodeList ?lb ! (unat (ChecksumIEEE (bytes_of ''123456789'')) mod length (lbNodeList ?lb))), ?lb)"
    by (rule hash_pick_stable) simp_all
  ultimately show ?thesis by (simp only:)
qed

text \<open>
  Least-active choice returns the last node with the fewest active requests, unless that
  is the last node of the list: then it falls back to round robin over all nodes.
\<close>

theorem active_pick:
  assumes "lbNodeList lb \<noteq> []"
  shows "\<exists>m. least_active h (lbNodeList lb) m \<and>
           getNodeByLoadBalanceActive h lb =
             (if m = length (lbNodeList lb) - 1 then getNodeByLoadBalanceRoundRobin lb
              else Ret (lbNodeList lb ! m, lb))"
  using least_active_exists [OF assms] active_eq by blast

theorem active_pick_witness:
  "getNodeByLoadBalanceActive (two_nodes 2 3) \<lparr>lbNodeList = [0, 1], lbSeq = 0\<rparr>
     = Ret (0, \<lparr>lbNodeList = [0, 1], lbSeq = 0\<rparr>)"
proof -
  let ?lb = "\<lparr>lbNodeList = [0, 1], lbSeq = 0\<rparr>"
  obtain m where m: "least_active (two_nodes 2 3) (lbNodeList ?lb) m"
    and eq: "getNodeByLoadBalanceActive (two_nodes 2 3) ?lb =
       (if m = length (lbNodeList ?lb) - 1 then getNodeByLoadBalanceRoundRobin ?lb
        else Ret (lbNodeList ?lb ! m, ?lb))"
    using active_pick [of ?lb "two_nodes 2 3"] by auto
  from m have "m = 0"
    by (fastforce simp: least_active_def less_Suc_eq numeral_eq_Suc)
  with eq show ?thesis by simp
qed

text \<open>
  So the fallback can pick the busiest node: with an idle last node and a first node
  that has five requests, the balancer returns the first one.
\<close>

theorem active_pick_ignores_idle_last:
  "getNodeByLoadBalanceActive (two_nodes 5 0) \<lparr>lbNodeList = [0, 1], lbSeq = 1\<rparr>
     = Ret (0, \<lparr>lbNodeList = [0, 1], lbSeq = 2\<rparr>) \<and>
   Active (two_nodes 5 0 0) > Active (two_nodes 5 0 1)"
  by (simp add: getNodeByLoadBalanceActive_def getNodeByLoadBalanceRoundRobin_def index_def
      go_rem_def i64_def)

text \<open>The draws that select a node are an interval.\<close>

lemma weight_loop_skip:
  "list_all (\<lambda>q. 0 \<le> Weight (h q)) xs \<Longrightarrow> weight_sum h xs < r \<Longrightarrow> r < 2 ^ 63 \<Longrightarrow>
     weight_loop h (xs @ ys) r = weight_loop h ys (r - weight_sum h xs)"
proof (induction xs arbitrary: r)
  case (Cons q xs)
  have "0 \<le> weight_sum h xs" using Cons.prems(1) by (simp add: weight_sum_nonneg)
  with Cons.prems have r: "i64 (r - Weight (h q)) = r - Weight (h q)"
    by (intro i64_id) simp
  have "weight_loop h (xs @ ys) (r - Weight (h q))
          = weight_loop h ys (r - Weight (h q) - weight_sum h xs)"
    using Cons.prems by (intro Cons.IH) simp_all
  with r Cons.prems \<open>0 \<le> weight_sum h xs\<close> show ?case
    by (simp add: Let_def diff_diff_eq)
qed simp

lemma weight_loop_prefix:
  "weight_loop h xs r = Some q \<Longrightarrow> weight_loop h (xs @ ys) r = Some q"
  by (induction xs arbitrary: r) (auto simp: Let_def)

lemma weight_loop_range:
  assumes "distinct (xs @ p # ys)" "list_all (\<lambda>q. 0 < Weight (h q)) (xs @ p # ys)"
    and "weight_sum h (xs @ p # ys) < 2 ^ 63" "0 \<le> r" "r < weight_sum h (xs @ p # ys)"
  shows "weight_loop h (xs @ p # ys) r = Some p \<longleftrightarrow>
           (xs = [] \<or> weight_sum h xs < r) \<and> r \<le> weight_sum h xs + Weight (h p)"
proof -
  have nn: "list_all (\<lambda>q. 0 \<le> Weight (h q)) (xs @ p # ys)"
    using assms(2) by (auto simp: list_all_iff intro: less_imp_le)
  have "weight_loop h (xs @ p # ys) r \<noteq> Some p" if ne: "xs \<noteq> []" and le: "r \<le> weight_sum h xs"
  proof -
    have "0 \<le> weight_sum h (p # ys)"
      using nn by (intro weight_sum_nonneg) simp
    then have "weight_sum h xs < 2 ^ 63"
      using assms(3) by simp
    then obtain q where q: "q \<in> set xs" "weight_loop h xs r = Some q"
      using ne le assms(4) nn weight_loop_total [of h xs r] by auto
    then have "weight_loop h (xs @ p # ys) r = Some q"
      by (intro weight_loop_prefix)
    with q(1) assms(1) show ?thesis by auto
  qed
  moreover have "weight_loop h (xs @ p # ys) r \<noteq> Some p" if "weight_sum h xs + Weight (h p) < r"
  proof -
    have "weight_loop h ((xs @ [p]) @ ys) r = weight_loop h ys (r - weight_sum h (xs @ [p]))"
      using that nn assms(3,5) by (intro weight_loop_skip) simp_all
    with assms(1) show ?thesis
      by (auto dest: weight_loop_mem)
  qed
  ultimately show ?thesis
    using weight_loop_at [OF nn assms(3)] assms(4) by (metis linorder_not_le)
qed

lemma list_all_pos: "list_all (\<lambda>q. 0 < Weight (h q)) ps \<Longrightarrow> list_all (\<lambda>q. 0 \<le> Weight (h q)) ps"
  by (auto simp: list_all_iff intro: less_imp_le)

lemma weight_sum_pos: "list_all (\<lambda>q. 0 < Weight (h q)) ps \<Longrightarrow> ps \<noteq> [] \<longrightarrow> 0 < weight_sum h ps"
  by (induction ps) (auto simp: add_pos_pos)

text \<open>The choice as a function of the draw alone.\<close>

lemma random_weight_draw:
  assumes "lbNodeList lb = xs @ p # ys" "list_all (\<lambda>q. 0 < Weight (h q)) (xs @ p # ys)"
    and "weight_sum h (xs @ p # ys) < 2 ^ 63" "0 \<le> r" "r < weight_sum h (xs @ p # ys)"
  shows "getNodeByLoadBalanceRandomWeight h (\<lambda>_. r) lb = Ret (q, lb) \<longleftrightarrow>
           weight_loop h (xs @ p # ys) r = Some q"
proof -
  have nn: "list_all (\<lambda>q. 0 \<le> Weight (h q)) (xs @ p # ys)"
    using assms(2) by (rule list_all_pos)
  then have "weight_total h (xs @ p # ys) 0 = weight_sum h (xs @ p # ys)"
    using assms(3) weight_total_eq [of h "xs @ p # ys" 0] by simp
  moreover have "\<exists>q. weight_loop h (xs @ p # ys) r = Some q"
    using weight_loop_total [OF nn assms(3) _ assms(4)] assms(5) by auto
  ultimately show ?thesis
    using assms(1,4,5) by (auto simp: getNodeByLoadBalanceRandomWeight_def Intn_def)
qed

text \<open>
  C29: under weighted choice the draws that select a node number its weight, except that the
  first node of the list gets one draw more and the last one less.
\<close>

theorem weighted_shares:
  assumes "lbNodeList lb = xs @ p # ys" "distinct (xs @ p # ys)"
    and "list_all (\<lambda>q. 0 < Weight (h q)) (xs @ p # ys)" "weight_sum h (xs @ p # ys) < 2 ^ 63"
  shows "int (card {r. 0 \<le> r \<and> r < weight_sum h (lbNodeList lb) \<and>
                       getNodeByLoadBalanceRandomWeight h (\<lambda>_. r) lb = Ret (p, lb)})
           = Weight (h p) + (if xs = [] then 1 else 0) - (if ys = [] then 1 else 0)"
proof -
  let ?x = "weight_sum h xs" and ?w = "Weight (h p)" and ?y = "weight_sum h ys"
  have pos: "0 < ?w" "0 \<le> ?x" "0 \<le> ?y" "xs \<noteq> [] \<longrightarrow> 0 < ?x" "ys \<noteq> [] \<longrightarrow> 0 < ?y"
    using assms(3) by (simp_all add: weight_sum_nonneg weight_sum_pos list_all_pos)
  have "{r. 0 \<le> r \<and> r < weight_sum h (lbNodeList lb) \<and>
             getNodeByLoadBalanceRandomWeight h (\<lambda>_. r) lb = Ret (p, lb)}
      = {if xs = [] then 0 else ?x + 1 .. if ys = [] then ?x + ?w - 1 else ?x + ?w}"
    using pos weight_loop_range [OF assms(2-4)] random_weight_draw [OF assms(1,3,4)]
    by (auto simp: assms(1) split: if_splits)
  with pos show ?thesis by auto
qed

theorem weighted_shares_witness:
  "int (card {r. 0 \<le> r \<and> r < weight_sum (two_nodes 0 0) [0, 1] \<and>
     getNodeByLoadBalanceRandomWeight (two_nodes 0 0) (\<lambda>_. r) \<lparr>lbNodeList = [0, 1], lbSeq = 0\<rparr>
       = Ret (1, \<lparr>lbNodeList = [0, 1], lbSeq = 0\<rparr>)}) = 0"
  using weighted_shares [of "\<lparr>lbNodeList = [0, 1], lbSeq = 0\<rparr>" "[0]" 1 "[]" "two_nodes 0 0"] by simp

end
