(* ===== verification/Session_Manager.thy ===== *)
theory Session_Manager
  imports Easy_Package Easy_Node
begin

text \<open>
  The client's table of pending requests (\<open>session_manager.go\<close>) and the goroutines that
  work on it: the caller of \<open>RequestAsyncWithHead\<close>, the timer goroutine it starts, and the
  pool workers that run \<open>ServiceClient.Process\<close> on arriving responses
  (\<open>service_client.go\<close>). They meet in \<open>DestorySessionAndRespPkg\<close>, which any number of them
  may run for the same session.

  Sessions are allocated in a list and referred to by position, as by pointer. One action of
  \<open>sm_do\<close> is one atomic step: a critical section of the manager's mutex, an acquisition of a
  session's mutex, or the rendezvous on the unbuffered response channel together with the
  rest of the critical section. An action returns \<open>None\<close> where the goroutine would block.
\<close>

section \<open>Sessions\<close>

datatype timer_state = Armed | Fired | Stopped

text \<open>How far the caller has come: still inside the request function, returned from it with
  the channel, or on the error path after a failed encoding.\<close>

datatype caller_state = Preparing | Returned | Failed

datatype 'b receive_state = NotReceiving | Receiving | Received "'b easy_package option"

record 'b session =
  sSeqOrgi :: uint64
  sSeq :: uint64
  sOpen :: bool                                \<comment> \<open>\<open>respChan != nil\<close>\<close>
  sClosed :: bool                              \<comment> \<open>the channel has been closed\<close>
  sDelivered :: "'b easy_package option list"  \<comment> \<open>the values sent on the channel\<close>
  sTimer :: timer_state
  sLocked :: bool                              \<comment> \<open>the session's mutex is held\<close>
  sNode :: node_ref
  sCaller :: caller_state
  sReceive :: "'b receive_state"
  sTimerWaits :: bool                          \<comment> \<open>the timer goroutine waits on \<open>timer.C\<close>\<close>

text \<open>A goroutine inside \<open>DestorySessionAndRespPkg(session, respPkg)\<close>.\<close>

datatype 'b destroyer =
    Idle
  | Deleting nat "'b easy_package option"      \<comment> \<open>before the deletion from the map\<close>
  | Locking nat "'b easy_package option"       \<comment> \<open>before \<open>session.mutex.Lock()\<close>\<close>
  | Sending nat "'b easy_package option"       \<comment> \<open>at the send on \<open>respChan\<close>\<close>
  | Finished

record 'b session_manager =
  smSessions :: "'b session list"
  smMap :: "uint64 \<rightharpoonup> nat"
  smSeq :: uint64
  smNodes :: node_heap
  smThreads :: "nat \<Rightarrow> 'b destroyer"

definition sm_init :: "node_heap \<Rightarrow> 'b session_manager" where
  "sm_init h = \<lparr>smSessions = [], smMap = Map.empty, smSeq = 0, smNodes = h, smThreads = (\<lambda>_. Idle)\<rparr>"

section \<open>Operations on the map\<close>

definition AddSession :: "uint64 \<Rightarrow> nat \<Rightarrow> 'b session_manager \<Rightarrow> 'b session_manager" where
  "AddSession sessionId s esm = esm\<lparr>smMap := (smMap esm)(sessionId \<mapsto> s)\<rparr>"

definition RemoveSession :: "uint64 \<Rightarrow> 'b session_manager \<Rightarrow> 'b session_manager" where
  "RemoveSession sessionId esm = esm\<lparr>smMap := (smMap esm)(sessionId := None)\<rparr>"

definition GetSession :: "uint64 \<Rightarrow> 'b session_manager \<Rightarrow> nat option" where
  "GetSession sessionId esm = smMap esm sessionId"

definition InitSession :: "node_ref \<Rightarrow> 'b session_manager \<Rightarrow> nat \<times> 'b session_manager" where
  "InitSession node esm =
     (let sq = smSeq esm + 1;
          s = length (smSessions esm);
          session = \<lparr>sSeqOrgi = 0, sSeq = sq, sOpen = True, sClosed = False, sDelivered = [],
                     sTimer = Armed, sLocked = False, sNode = node, sCaller = Preparing,
                     sReceive = NotReceiving, sTimerWaits = False\<rparr>
      in (s, AddSession sq s
               (esm\<lparr>smSeq := sq, smNodes := add_active node 1 (smNodes esm),
                    smSessions := smSessions esm @ [session]\<rparr>)))"

definition upd_session :: "nat \<Rightarrow> ('b session \<Rightarrow> 'b session) \<Rightarrow> 'b session_manager \<Rightarrow> 'b session_manager" where
  "upd_session s f esm = esm\<lparr>smSessions := (smSessions esm)[s := f (smSessions esm ! s)]\<rparr>"

definition set_thread :: "nat \<Rightarrow> 'b destroyer \<Rightarrow> 'b session_manager \<Rightarrow> 'b session_manager" where
  "set_thread t d esm = esm\<lparr>smThreads := (smThreads esm)(t := d)\<rparr>"

text \<open>\<open>timer.Stop()\<close>: a tick that is already in the channel stays there.\<close>

definition stop_timer :: "'b session \<Rightarrow> 'b session" where
  "stop_timer x = x\<lparr>sTimer := (if sTimer x = Armed then Stopped else sTimer x)\<rparr>"

section \<open>DestorySessionAndRespPkg, step by step\<close>

definition destroy_delete :: "nat \<Rightarrow> 'b session_manager \<Rightarrow> 'b session_manager outcome option" where
  "destroy_delete t esm =
     (case smThreads esm t of
        Deleting s pkg \<Rightarrow>
          Some (Ret (set_thread t (Locking s pkg) (RemoveSession (sSeq (smSessions esm ! s)) esm)))
      | _ \<Rightarrow> None)"

definition destroy_lock :: "nat \<Rightarrow> 'b session_manager \<Rightarrow> 'b session_manager outcome option" where
  "destroy_lock t esm =
     (case smThreads esm t of
        Locking s pkg \<Rightarrow>
          (let x = smSessions esm ! s in
           if sLocked x then None
           else if sOpen x then
             Some (Ret (set_thread t (Sending s pkg) (upd_session s (\<lambda>x. x\<lparr>sLocked := True\<rparr>) esm)))
           else Some (Ret (set_thread t Finished (upd_session s stop_timer esm))))
      | _ \<Rightarrow> None)"

text \<open>
  The send completes when the caller receives; then the channel is closed and forgotten, the
  node's counter goes down, the timer is stopped and the mutex released.
\<close>

definition destroy_send :: "nat \<Rightarrow> 'b session_manager \<Rightarrow> 'b session_manager outcome option" where
  "destroy_send t esm =
     (case smThreads esm t of
        Sending s pkg \<Rightarrow>
          (let x = smSessions esm ! s in
           if sClosed x then Some (Panic ClosedChannel)
           else if sReceive x = Receiving then
             Some (Ret (set_thread t Finished
               (upd_session s (\<lambda>x. stop_timer (x\<lparr>sDelivered := sDelivered x @ [pkg],
                   sReceive := Received pkg, sClosed := True, sOpen := False, sLocked := False\<rparr>))
                 (esm\<lparr>smNodes := add_active (sNode x) (- 1) (smNodes esm)\<rparr>))))
           else None)
      | _ \<Rightarrow> None)"

section \<open>The goroutines\<close>

datatype 'b sm_action =
    Init node_ref                    \<comment> \<open>\<open>InitSession\<close>, called by \<open>RequestAsyncWithHead\<close>\<close>
  | ReturnChan nat                   \<comment> \<open>the timer goroutine starts, the caller gets the channel\<close>
  | FailEncode nat nat               \<comment> \<open>the caller destroys the session after a failed encoding\<close>
  | Receive nat                      \<comment> \<open>the caller starts to receive\<close>
  | Tick nat                         \<comment> \<open>the timer expires\<close>
  | Wake nat nat                     \<comment> \<open>the timer goroutine gets the tick\<close>
  | Process nat "'b easy_package"    \<comment> \<open>a pool worker processes a response\<close>
  | Delete nat | Lock nat | Send nat \<comment> \<open>a goroutine inside \<open>DestorySessionAndRespPkg\<close>\<close>

fun sm_do :: "'b session_manager \<Rightarrow> 'b sm_action \<Rightarrow> 'b session_manager outcome option" where
  "sm_do esm (Init node) = Some (Ret (snd (InitSession node esm)))"
| "sm_do esm (ReturnChan s) =
     (if s < length (smSessions esm) \<and> sCaller (smSessions esm ! s) = Preparing
      then Some (Ret (upd_session s (\<lambda>x. x\<lparr>sCaller := Returned, sTimerWaits := True\<rparr>) esm))
      else None)"
| "sm_do esm (FailEncode t s) =
     (if s < length (smSessions esm) \<and> sCaller (smSessions esm ! s) = Preparing \<and> smThreads esm t = Idle
      then Some (Ret (set_thread t (Deleting s None) (upd_session s (\<lambda>x. x\<lparr>sCaller := Failed\<rparr>) esm)))
      else None)"
| "sm_do esm (Receive s) =
     (if s < length (smSessions esm) \<and> sCaller (smSessions esm ! s) = Returned \<and>
         sReceive (smSessions esm ! s) = NotReceiving
      then Some (Ret (upd_session s (\<lambda>x. x\<lparr>sReceive := Receiving\<rparr>) esm))
      else None)"
| "sm_do esm (Tick s) =
     (if s < length (smSessions esm) \<and> sTimer (smSessions esm ! s) = Armed
      then Some (Ret (upd_session s (\<lambda>x. x\<lparr>sTimer := Fired\<rparr>) esm))
      else None)"
| "sm_do esm (Wake t s) =
     (if s < length (smSessions esm) \<and> sTimerWaits (smSessions esm ! s) \<and>
         sTimer (smSessions esm ! s) = Fired \<and> smThreads esm t = Idle
      then Some (Ret (set_thread t (Deleting s None) (upd_session s (\<lambda>x. x\<lparr>sTimerWaits := False\<rparr>) esm)))
      else None)"
| "sm_do esm (Process t respPkg) =
     (if smThreads esm t \<noteq> Idle then None
      else if GetSeq (GetHead respPkg) = 0 then Some (Ret esm)
      else case GetSession (GetSeq (GetHead respPkg)) esm of
             None \<Rightarrow> Some (Ret esm)
           | Some s \<Rightarrow> Some (Ret (set_thread t (Deleting s (Some respPkg)) esm)))"
| "sm_do esm (Delete t) = destroy_delete t esm"
| "sm_do esm (Lock t) = destroy_lock t esm"
| "sm_do esm (Send t) = destroy_send t esm"

definition sm_step :: "'b session_manager \<Rightarrow> 'b session_manager \<Rightarrow> bool" where
  "sm_step esm esm' \<longleftrightarrow> (\<exists>a. sm_do esm a = Some (Ret esm'))"

fun sm_run :: "'b session_manager \<Rightarrow> 'b sm_action list \<Rightarrow> 'b session_manager option" where
  "sm_run esm [] = Some esm"
| "sm_run esm (a # acts) =
     (case sm_do esm a of Some (Ret esm') \<Rightarrow> sm_run esm' acts | _ \<Rightarrow> None)"

lemma sm_run_steps: "sm_run esm acts = Some esm' \<Longrightarrow> sm_step\<^sup>*\<^sup>* esm esm'"
proof (induction acts arbitrary: esm)
  case (Cons a acts)
  then obtain esm1 where "sm_do esm a = Some (Ret esm1)" "sm_run esm1 acts = Some esm'"
    by (auto split: option.splits outcome.splits)
  then show ?case
    using Cons.IH by (meson converse_rtranclp_into_rtranclp sm_step_def)
qed simp

section \<open>The invariant\<close>

text \<open>A response belongs to the session whose sequence number it carries.\<close>

definition matches :: "'b session \<Rightarrow> 'b easy_package option \<Rightarrow> bool" where
  "matches x pkg \<longleftrightarrow> (\<forall>p. pkg = Some p \<longrightarrow> GetSeq (GetHead p) = sSeq x)"

text \<open>An open channel is untouched; a channel that was given up carried exactly one value.\<close>

definition chan_ok :: "'b session \<Rightarrow> bool" where
  "chan_ok x \<longleftrightarrow>
     (if sOpen x then \<not> sClosed x \<and> sDelivered x = [] \<and> sReceive x \<in> {NotReceiving, Receiving}
      else sClosed x \<and> \<not> sLocked x \<and>
           (\<exists>pkg. sDelivered x = [pkg] \<and> sReceive x = Received pkg \<and> matches x pkg))"

definition threads_ok :: "'b session_manager \<Rightarrow> bool" where
  "threads_ok esm \<longleftrightarrow>
     (\<forall>t s pkg. smThreads esm t \<in> {Deleting s pkg, Locking s pkg, Sending s pkg} \<longrightarrow>
        s < length (smSessions esm) \<and> matches (smSessions esm ! s) pkg) \<and>
     (\<forall>t s pkg. smThreads esm t = Sending s pkg \<longrightarrow>
        sOpen (smSessions esm ! s) \<and> sLocked (smSessions esm ! s)) \<and>
     (\<forall>t t' s pkg pkg'. smThreads esm t = Sending s pkg \<longrightarrow> smThreads esm t' = Sending s pkg' \<longrightarrow> t = t')"

definition map_ok :: "'b session_manager \<Rightarrow> bool" where
  "map_ok esm \<longleftrightarrow> (\<forall>q s. smMap esm q = Some s \<longrightarrow>
     s < length (smSessions esm) \<and> sSeq (smSessions esm ! s) = q)"

definition seqs_ok :: "'b session_manager \<Rightarrow> bool" where
  "seqs_ok esm \<longleftrightarrow> smSeq esm = of_nat (length (smSessions esm)) \<and>
     (\<forall>i < length (smSessions esm). sSeq (smSessions esm ! i) = of_nat (Suc i))"

definition pending :: "'b session_manager \<Rightarrow> node_ref \<Rightarrow> int" where
  "pending esm n = int (length (filter (\<lambda>x. sOpen x \<and> sNode x = n) (smSessions esm)))"

definition active_ok :: "'b session_manager \<Rightarrow> bool" where
  "active_ok esm \<longleftrightarrow> (\<forall>n. Active (smNodes esm n) = i32 (pending esm n))"

definition sm_inv :: "'b session_manager \<Rightarrow> bool" where
  "sm_inv esm \<longleftrightarrow> (\<forall>x \<in> set (smSessions esm). chan_ok x) \<and> threads_ok esm \<and> map_ok esm \<and>
     seqs_ok esm \<and> active_ok esm"

definition sm_start :: "'b session_manager \<Rightarrow> bool" where
  "sm_start esm \<longleftrightarrow> (\<exists>h. esm = sm_init h \<and> (\<forall>n. Active (h n) = 0))"

lemma sm_inv_start: "sm_start esm \<Longrightarrow> sm_inv esm"
  by (auto simp: sm_start_def sm_init_def sm_inv_def threads_ok_def map_ok_def seqs_ok_def
      active_ok_def pending_def i32_id)

subsection \<open>Updates that keep it\<close>

lemmas sm_parts = threads_ok_def map_ok_def seqs_ok_def active_ok_def

lemma matches_cong: "sSeq x = sSeq y \<Longrightarrow> matches x pkg = matches y pkg"
  by (simp add: matches_def)

text \<open>An update of a session that keeps its number, node and channel state.\<close>

lemma threads_ok_sessions:
  assumes "threads_ok esm" "length xs = length (smSessions esm)"
    and "\<And>i. i < length xs \<Longrightarrow> sSeq (xs ! i) = sSeq (smSessions esm ! i)"
    and "\<And>i. i < length xs \<Longrightarrow> sOpen (smSessions esm ! i) \<longrightarrow> sOpen (xs ! i)"
    and "\<And>i. i < length xs \<Longrightarrow> sLocked (smSessions esm ! i) \<longrightarrow> sLocked (xs ! i)"
  shows "threads_ok (esm\<lparr>smSessions := xs\<rparr>)"
proof -
  have "matches (xs ! i) pkg = matches (smSessions esm ! i) pkg" if "i < length xs" for i pkg
    using that assms(3) by (simp add: matches_def)
  with assms show ?thesis
    unfolding threads_ok_def by simp (metis (no_types, lifting))
qed

lemma sm_inv_upd:
  assumes inv: "sm_inv esm" and s: "s < length (smSessions esm)"
    and sq: "sSeq (f (smSessions esm ! s)) = sSeq (smSessions esm ! s)"
    and "sNode (f (smSessions esm ! s)) = sNode (smSessions esm ! s)"
    and op: "sOpen (f (smSessions esm ! s)) = sOpen (smSessions esm ! s)"
    and lk: "sLocked (smSessions esm ! s) \<longrightarrow> sLocked (f (smSessions esm ! s))"
    and ch: "chan_ok (f (smSessions esm ! s))"
  shows "sm_inv (upd_session s f esm)"
proof -
  let ?xs = "(smSessions esm)[s := f (smSessions esm ! s)]"
  have i: "sSeq (?xs ! i) = sSeq (smSessions esm ! i)" "sOpen (?xs ! i) = sOpen (smSessions esm ! i)"
    "sLocked (smSessions esm ! i) \<longrightarrow> sLocked (?xs ! i)" if "i < length ?xs" for i
    using that sq op lk s by (cases "i = s"; simp)+
  have "pending (upd_session s f esm) n = pending esm n" for n
    using assms by (simp add: pending_def upd_session_def length_filter_update)
  moreover have "threads_ok (upd_session s f esm)"
    unfolding upd_session_def
    using inv i by (intro threads_ok_sessions) (auto simp: sm_inv_def)
  moreover have "\<forall>x \<in> set ?xs. chan_ok x"
    using inv ch by (auto simp: sm_inv_def dest: set_update_subset_insert [THEN subsetD])
  moreover have "map_ok (upd_session s f esm)" "seqs_ok (upd_session s f esm)"
    using inv i(1) by (simp_all add: sm_inv_def map_ok_def seqs_ok_def upd_session_def) metis
  ultimately show ?thesis
    using inv by (simp add: sm_inv_def active_ok_def) (simp add: upd_session_def)
qed

text \<open>A goroutine moves without getting hold of a channel.\<close>

lemma sm_inv_thread:
  assumes "sm_inv esm" and "\<And>s pkg. d \<noteq> Sending s pkg"
    and "\<And>s pkg. d \<in> {Deleting s pkg, Locking s pkg} \<Longrightarrow>
           s < length (smSessions esm) \<and> matches (smSessions esm ! s) pkg"
  shows "sm_inv (set_thread t d esm)"
  using assms unfolding sm_inv_def sm_parts pending_def
  by (auto simp: set_thread_def)

lemma sm_inv_remove: "sm_inv esm \<Longrightarrow> sm_inv (RemoveSession q esm)"
  unfolding sm_inv_def sm_parts pending_def by (auto simp: RemoveSession_def)

lemma stop_timer_simps [simp]:
  "sSeq (stop_timer x) = sSeq x" "sOpen (stop_timer x) = sOpen x" "sClosed (stop_timer x) = sClosed x"
  "sDelivered (stop_timer x) = sDelivered x" "sLocked (stop_timer x) = sLocked x"
  "sNode (stop_timer x) = sNode x" "sCaller (stop_timer x) = sCaller x"
  "sReceive (stop_timer x) = sReceive x" "sTimerWaits (stop_timer x) = sTimerWaits x"
  by (simp_all add: stop_timer_def)

lemma chan_ok_simps [simp]:
  "chan_ok (stop_timer x) = chan_ok x"
  "chan_ok (x\<lparr>sCaller := c\<rparr>) = chan_ok x"
  "chan_ok (x\<lparr>sTimer := tm\<rparr>) = chan_ok x"
  "chan_ok (x\<lparr>sTimerWaits := w\<rparr>) = chan_ok x"
  by (simp_all add: chan_ok_def matches_def)

lemma sm_inv_nth: "sm_inv esm \<Longrightarrow> s < length (smSessions esm) \<Longrightarrow> chan_ok (smSessions esm ! s)"
  by (simp add: sm_inv_def)

lemma sm_inv_threadD:
  assumes "sm_inv esm" "smThreads esm t \<in> {Deleting s pkg, Locking s pkg, Sending s pkg}"
  shows "s < length (smSessions esm)" "matches (smSessions esm ! s) pkg"
  using assms unfolding sm_inv_def threads_ok_def by blast+

lemma sm_inv_SendingD:
  "sm_inv esm \<Longrightarrow> smThreads esm t = Sending s pkg \<Longrightarrow>
     sOpen (smSessions esm ! s) \<and> sLocked (smSessions esm ! s)"
  unfolding sm_inv_def threads_ok_def by blast

lemma InitSession_simps [simp]:
  "fst (InitSession node esm) = length (smSessions esm)"
  "smSeq (snd (InitSession node esm)) = smSeq esm + 1"
  "smThreads (snd (InitSession node esm)) = smThreads esm"
  "smNodes (snd (InitSession node esm)) = add_active node 1 (smNodes esm)"
  "smMap (snd (InitSession node esm)) = (smMap esm)(smSeq esm + 1 \<mapsto> length (smSessions esm))"
  "smSessions (snd (InitSession node esm)) = smSessions esm @
     [\<lparr>sSeqOrgi = 0, sSeq = smSeq esm + 1, sOpen = True, sClosed = False, sDelivered = [],
       sTimer = Armed, sLocked = False, sNode = node, sCaller = Preparing,
       sReceive = NotReceiving, sTimerWaits = False\<rparr>]"
  by (simp_all add: InitSession_def AddSession_def Let_def)

lemma sm_inv_init:
  assumes "sm_inv esm"
  shows "sm_inv (snd (InitSession node esm))"
proof -
  let ?esm' = "snd (InitSession node esm)"
  have "pending ?esm' n = pending esm n + (if node = n then 1 else 0)" for n
    by (simp add: pending_def)
  then have "active_ok ?esm'"
    using assms by (simp add: sm_inv_def active_ok_def Active_add_active i32_i32_add)
  moreover have "threads_ok ?esm'"
  proof -
    from assms have t: "threads_ok esm" by (simp add: sm_inv_def)
    then have "s < length (smSessions esm)"
      if "smThreads esm t \<in> {Deleting s pkg, Locking s pkg, Sending s pkg}" for t s pkg
      using that unfolding threads_ok_def by blast
    then have [simp]: "smSessions ?esm' ! s = smSessions esm ! s"
      if "smThreads esm t \<in> {Deleting s pkg, Locking s pkg, Sending s pkg}" for t s pkg
      using that by (simp add: nth_append)
    show ?thesis
      using t unfolding threads_ok_def
      by (auto simp: nth_append intro: less_SucI)
  qed
  moreover have "map_ok ?esm'"
    using assms by (auto simp: sm_inv_def map_ok_def nth_append less_Suc_eq)
  moreover have "seqs_ok ?esm'"
    using assms by (auto simp: sm_inv_def seqs_ok_def nth_append less_Suc_eq)
  moreover have "\<forall>x \<in> set (smSessions ?esm'). chan_ok x"
    using assms by (auto simp: sm_inv_def chan_ok_def)
  ultimately show ?thesis
    by (simp add: sm_inv_def)
qed

subsection \<open>The critical section of DestorySessionAndRespPkg\<close>

lemma sm_inv_lock:
  assumes inv: "sm_inv esm" and t: "smThreads esm t = Locking s pkg"
    and x: "\<not> sLocked (smSessions esm ! s)" "sOpen (smSessions esm ! s)"
  shows "sm_inv (set_thread t (Sending s pkg) (upd_session s (\<lambda>x. x\<lparr>sLocked := True\<rparr>) esm))"
proof -
  let ?esm1 = "upd_session s (\<lambda>x. x\<lparr>sLocked := True\<rparr>) esm"
  from inv t have s: "s < length (smSessions esm)" and m: "matches (smSessions esm ! s) pkg"
    using sm_inv_threadD [of esm t s pkg] by simp_all
  have "chan_ok ((smSessions esm ! s)\<lparr>sLocked := True\<rparr>)"
    using sm_inv_nth [OF inv s] x by (simp add: chan_ok_def)
  then have inv1: "sm_inv ?esm1"
    by (intro sm_inv_upd inv s) simp_all
  have sess: "length (smSessions ?esm1) = length (smSessions esm)"
    "smSessions ?esm1 ! s = (smSessions esm ! s)\<lparr>sLocked := True\<rparr>"
    "smThreads ?esm1 = smThreads esm"
    using s by (simp_all add: upd_session_def)
  have none: "smThreads esm t' \<noteq> Sending s pkg'" for t' pkg'
    using inv x(1) unfolding sm_inv_def threads_ok_def by blast
  from inv1 have tok: "threads_ok ?esm1" by (simp add: sm_inv_def)
  have "threads_ok (set_thread t (Sending s pkg) ?esm1)"
    using tok none s m x(2) sess
    unfolding threads_ok_def set_thread_def matches_def by (auto split: if_splits)
  with inv1 show ?thesis
    by (simp add: sm_inv_def set_thread_def map_ok_def seqs_ok_def active_ok_def pending_def)
qed

lemma sm_inv_send:
  assumes inv: "sm_inv esm" and t: "smThreads esm t = Sending s pkg"
    and r: "sReceive (smSessions esm ! s) = Receiving"
  shows "sm_inv (set_thread t Finished
               (upd_session s (\<lambda>x. stop_timer (x\<lparr>sDelivered := sDelivered x @ [pkg],
                   sReceive := Received pkg, sClosed := True, sOpen := False, sLocked := False\<rparr>))
                 (esm\<lparr>smNodes := add_active (sNode (smSessions esm ! s)) (- 1) (smNodes esm)\<rparr>)))"
    (is "sm_inv ?esm'")
proof -
  from inv t have s: "s < length (smSessions esm)" and m: "matches (smSessions esm ! s) pkg"
    using sm_inv_threadD [of esm t s pkg] by simp_all
  from inv t have op: "sOpen (smSessions esm ! s)" "sLocked (smSessions esm ! s)"
    unfolding sm_inv_def threads_ok_def by blast+
  let ?x = "smSessions esm ! s"
  let ?y = "stop_timer (?x\<lparr>sDelivered := sDelivered ?x @ [pkg],
                   sReceive := Received pkg, sClosed := True, sOpen := False, sLocked := False\<rparr>)"
  have y [simp]: "sSeq ?y = sSeq ?x" "sNode ?y = sNode ?x" "\<not> sOpen ?y"
    by simp_all
  have sess: "smSessions ?esm' = (smSessions esm)[s := ?y]"
    by (simp add: set_thread_def upd_session_def)
  have thr: "smThreads ?esm' = (smThreads esm)(t := Finished)"
    by (simp add: set_thread_def upd_session_def)
  have rest: "smMap ?esm' = smMap esm" "smSeq ?esm' = smSeq esm"
    "smNodes ?esm' = add_active (sNode ?x) (- 1) (smNodes esm)"
    by (simp_all add: set_thread_def upd_session_def)
  have seq: "sSeq (smSessions ?esm' ! i) = sSeq (smSessions esm ! i)"
    if "i < length (smSessions esm)" for i
    using that s by (cases "i = s") (simp_all add: sess)
  from sm_inv_nth [OF inv s] op have "sDelivered ?x = []"
    by (simp add: chan_ok_def)
  with m have "chan_ok ?y"
    by (simp add: chan_ok_def matches_def)
  then have "\<forall>x \<in> set (smSessions ?esm'). chan_ok x"
    using inv by (auto simp: sess sm_inv_def dest: set_update_subset_insert [THEN subsetD])
  moreover have "threads_ok ?esm'"
  proof -
    have only: "smThreads esm t' = Sending s pkg' \<Longrightarrow> t' = t" for t' pkg'
      using inv t unfolding sm_inv_def threads_ok_def by blast
    have mt: "matches (smSessions ?esm' ! i) p = matches (smSessions esm ! i) p"
      if "i < length (smSessions esm)" for i p
      using seq that by (simp add: matches_def)
    have other: "smSessions ?esm' ! i = smSessions esm ! i" if "i \<noteq> s" for i
      using that by (simp add: sess)
    have len: "length (smSessions ?esm') = length (smSessions esm)"
      by (simp add: sess)
    have a: "i < length (smSessions ?esm') \<and> matches (smSessions ?esm' ! i) p"
      if "smThreads ?esm' u \<in> {Deleting i p, Locking i p, Sending i p}" for u i p
      using sm_inv_threadD [OF inv, of u i p] that mt
      by (simp add: thr len split: if_splits)
    have b: "sOpen (smSessions ?esm' ! i) \<and> sLocked (smSessions ?esm' ! i)"
      if "smThreads ?esm' u = Sending i p" for u i p
    proof -
      from that have u: "u \<noteq> t" "smThreads esm u = Sending i p"
        by (auto simp: thr split: if_splits)
      with only have "i \<noteq> s" by blast
      with sm_inv_SendingD [OF inv u(2)] other show ?thesis by simp
    qed
    have c: "u = u'" if "smThreads ?esm' u = Sending i p" "smThreads ?esm' u' = Sending i p'"
      for u u' i p p'
      using that inv unfolding thr sm_inv_def threads_ok_def
      by (auto split: if_splits)
    from a b c show ?thesis unfolding threads_ok_def by blast
  qed
  moreover have "map_ok ?esm'"
    using inv seq by (simp add: sm_inv_def map_ok_def rest) (simp add: sess)
  moreover have "seqs_ok ?esm'"
    using inv seq by (simp add: sm_inv_def seqs_ok_def rest) (simp add: sess)
  moreover have "active_ok ?esm'"
  proof -
    have "pending ?esm' n = pending esm n - (if n = sNode ?x then 1 else 0)" for n
      using s op by (auto simp: pending_def sess length_filter_update)
    then show ?thesis
      using inv by (auto simp: sm_inv_def active_ok_def rest Active_add_active i32_i32_diff)
  qed
  ultimately show ?thesis by (simp add: sm_inv_def)
qed

subsection \<open>Every action keeps it, and none panics\<close>

lemma sm_inv_do:
  assumes inv: "sm_inv esm" and d: "sm_do esm a = Some r"
  shows "\<exists>esm'. r = Ret esm' \<and> sm_inv esm'"
proof (cases a)
  case (Init node)
  with d sm_inv_init [OF inv, of node] show ?thesis by auto
next
  case (ReturnChan s)
  with d have s: "s < length (smSessions esm)"
    and r: "r = Ret (upd_session s (\<lambda>x. x\<lparr>sCaller := Returned, sTimerWaits := True\<rparr>) esm)"
    by (auto split: if_splits)
  have "sm_inv (upd_session s (\<lambda>x. x\<lparr>sCaller := Returned, sTimerWaits := True\<rparr>) esm)"
    using sm_inv_nth [OF inv s] by (intro sm_inv_upd inv s) simp_all
  with r show ?thesis by simp
next
  case (FailEncode t s)
  let ?esm1 = "upd_session s (\<lambda>x. x\<lparr>sCaller := Failed\<rparr>) esm"
  from FailEncode d have s: "s < length (smSessions esm)"
    and r: "r = Ret (set_thread t (Deleting s None) ?esm1)"
    by (auto split: if_splits)
  have "sm_inv ?esm1"
    using sm_inv_nth [OF inv s] by (intro sm_inv_upd inv s) simp_all
  then have "sm_inv (set_thread t (Deleting s None) ?esm1)"
    by (rule sm_inv_thread) (use s in \<open>auto simp: matches_def upd_session_def\<close>)
  with r show ?thesis by simp
next
  case (Receive s)
  with d have s: "s < length (smSessions esm)" and nr: "sReceive (smSessions esm ! s) = NotReceiving"
    and r: "r = Ret (upd_session s (\<lambda>x. x\<lparr>sReceive := Receiving\<rparr>) esm)"
    by (auto split: if_splits)
  have "sm_inv (upd_session s (\<lambda>x. x\<lparr>sReceive := Receiving\<rparr>) esm)"
    using sm_inv_nth [OF inv s] nr
    by (intro sm_inv_upd inv s) (auto simp: chan_ok_def matches_def split: if_splits)
  with r show ?thesis by simp
next
  case (Tick s)
  with d have s: "s < length (smSessions esm)"
    and r: "r = Ret (upd_session s (\<lambda>x. x\<lparr>sTimer := Fired\<rparr>) esm)"
    by (auto split: if_splits)
  have "sm_inv (upd_session s (\<lambda>x. x\<lparr>sTimer := Fired\<rparr>) esm)"
    using sm_inv_nth [OF inv s] by (intro sm_inv_upd inv s) simp_all
  with r show ?thesis by simp
next
  case (Wake t s)
  let ?esm1 = "upd_session s (\<lambda>x. x\<lparr>sTimerWaits := False\<rparr>) esm"
  from Wake d have s: "s < length (smSessions esm)"
    and r: "r = Ret (set_thread t (Deleting s None) ?esm1)"
    by (auto split: if_splits)
  have "sm_inv ?esm1"
    using sm_inv_nth [OF inv s] by (intro sm_inv_upd inv s) simp_all
  then have "sm_inv (set_thread t (Deleting s None) ?esm1)"
    by (rule sm_inv_thread) (use s in \<open>auto simp: matches_def upd_session_def\<close>)
  with r show ?thesis by simp
next
  case (Process t pkg)
  show ?thesis
  proof (cases "r = Ret esm")
    case False
    with Process d obtain s where "smMap esm (GetSeq (GetHead pkg)) = Some s"
      and r: "r = Ret (set_thread t (Deleting s (Some pkg)) esm)"
      by (auto simp: GetSession_def split: if_splits option.splits)
    with inv have "s < length (smSessions esm) \<and> matches (smSessions esm ! s) (Some pkg)"
      by (simp add: sm_inv_def map_ok_def matches_def)
    then have "sm_inv (set_thread t (Deleting s (Some pkg)) esm)"
      by (intro sm_inv_thread inv) auto
    with r show ?thesis by simp
  qed (use inv in simp)
next
  case (Delete t)
  with d obtain s pkg where t: "smThreads esm t = Deleting s pkg"
    and r: "r = Ret (set_thread t (Locking s pkg) (RemoveSession (sSeq (smSessions esm ! s)) esm))"
    by (auto simp: destroy_delete_def split: destroyer.splits)
  have "sm_inv (set_thread t (Locking s pkg) (RemoveSession (sSeq (smSessions esm ! s)) esm))"
    using sm_inv_threadD [OF inv, of t s pkg] t
    by (intro sm_inv_thread sm_inv_remove inv) (auto simp: RemoveSession_def)
  with r show ?thesis by simp
next
  case (Lock t)
  with d obtain s pkg where t: "smThreads esm t = Locking s pkg"
    and nl: "\<not> sLocked (smSessions esm ! s)"
    and r: "r = Ret (if sOpen (smSessions esm ! s)
        then set_thread t (Sending s pkg) (upd_session s (\<lambda>x. x\<lparr>sLocked := True\<rparr>) esm)
        else set_thread t Finished (upd_session s stop_timer esm))"
    by (auto simp: destroy_lock_def Let_def split: destroyer.splits if_splits)
  from sm_inv_threadD [OF inv, of t s pkg] t have s: "s < length (smSessions esm)" by simp
  have "sm_inv (upd_session s stop_timer esm)"
    using sm_inv_nth [OF inv s] by (intro sm_inv_upd inv s) simp_all
  then have "sm_inv (set_thread t Finished (upd_session s stop_timer esm))"
    by (rule sm_inv_thread) auto
  with r sm_inv_lock [OF inv t nl] show ?thesis by simp
next
  case (Send t)
  with d obtain s pkg where t: "smThreads esm t = Sending s pkg"
    by (auto simp: destroy_send_def split: destroyer.splits)
  from inv t have "sOpen (smSessions esm ! s)" "s < length (smSessions esm)"
    unfolding sm_inv_def threads_ok_def by blast+
  then have nc: "\<not> sClosed (smSessions esm ! s)"
    using sm_inv_nth [OF inv] by (auto simp: chan_ok_def split: if_splits)
  with Send d t have rc: "sReceive (smSessions esm ! s) = Receiving"
    by (auto simp: destroy_send_def Let_def split: if_splits)
  show ?thesis
    using sm_inv_send [OF inv t rc] Send d t nc rc by (auto simp: destroy_send_def Let_def)
qed

interpretation sm: invariant_system sm_start sm_step sm_inv
  by unfold_locales (auto simp: sm_step_def sm_inv_start dest: sm_inv_do)

lemma sm_start_init: "(\<And>n. Active (h n) = 0) \<Longrightarrow> sm_start (sm_init h)"
  by (auto simp: sm_start_def)

lemma sm_run_reaches:
  "sm_run (sm_init h) acts = Some esm \<Longrightarrow> (\<And>n. Active (h n) = 0) \<Longrightarrow> reaches sm_start sm_step esm"
  by (meson reaches_init reaches_steps sm_run_steps sm_start_init)

section \<open>Progress\<close>

text \<open>A goroutine that will, or does, give the session's channel up.\<close>

definition sends :: "'b session_manager \<Rightarrow> nat \<Rightarrow> bool" where
  "sends esm s \<longleftrightarrow> (\<exists>t pkg. smThreads esm t = Sending s pkg)"

definition claims :: "'b session_manager \<Rightarrow> nat \<Rightarrow> bool" where
  "claims esm s \<longleftrightarrow> (\<exists>t pkg. smThreads esm t \<in> {Deleting s pkg, Locking s pkg, Sending s pkg})"

text \<open>
  Only a caller that got the channel receives; the timer of an open channel is not stopped; a
  locked mutex has a holder, which is at the send; an open channel whose timer goroutine has
  gone on is claimed.
\<close>

definition session_live :: "'b session \<Rightarrow> bool \<Rightarrow> bool \<Rightarrow> bool" where
  "session_live x c d \<longleftrightarrow>
     (sCaller x \<noteq> Returned \<longrightarrow> sReceive x = NotReceiving) \<and>
     (sOpen x \<longrightarrow> sTimer x \<noteq> Stopped) \<and>
     (sLocked x \<longrightarrow> d) \<and>
     (sOpen x \<and> sCaller x = Returned \<and> \<not> sTimerWaits x \<longrightarrow> c)"

definition live :: "'b session_manager \<Rightarrow> bool" where
  "live esm \<longleftrightarrow> finite {t. smThreads esm t \<noteq> Idle} \<and>
     (\<forall>s < length (smSessions esm). session_live (smSessions esm ! s) (claims esm s) (sends esm s))"

lemma session_live_mono:
  "session_live x c d \<Longrightarrow> (c \<Longrightarrow> c') \<Longrightarrow> (d \<Longrightarrow> d') \<Longrightarrow> session_live x c' d'"
  by (auto simp: session_live_def)

lemma liveI:
  assumes "live esm" "length (smSessions esm') = length (smSessions esm)"
    and td: "smThreads esm' = (smThreads esm)(t := d)"
    and other: "\<And>i. i \<noteq> s \<Longrightarrow> smSessions esm' ! i = smSessions esm ! i"
      "\<And>i. i \<noteq> s \<Longrightarrow> claims esm i \<Longrightarrow> claims esm' i" "\<And>i. i \<noteq> s \<Longrightarrow> sends esm i \<Longrightarrow> sends esm' i"
    and s: "s < length (smSessions esm) \<Longrightarrow> session_live (smSessions esm ! s) (claims esm s) (sends esm s) \<Longrightarrow>
      session_live (smSessions esm' ! s) (claims esm' s) (sends esm' s)"
  shows "live esm'"
proof -
  have "{u. smThreads esm' u \<noteq> Idle} \<subseteq> insert t {u. smThreads esm u \<noteq> Idle}"
    by (auto simp: td)
  with assms(1) have fin: "finite {u. smThreads esm' u \<noteq> Idle}"
    unfolding live_def by (meson finite_insert finite_subset)
  have "session_live (smSessions esm' ! i) (claims esm' i) (sends esm' i)"
    if i: "i < length (smSessions esm)" for i
  proof (cases "i = s")
    case True
    with assms(1) i s show ?thesis by (simp add: live_def)
  next
    case False
    from assms(1) i have "session_live (smSessions esm ! i) (claims esm i) (sends esm i)"
      by (simp add: live_def)
    with other [OF False] show ?thesis
      by (auto intro: session_live_mono)
  qed
  with fin assms(2) show ?thesis by (simp add: live_def)
qed

lemma claims_set_thread:
  "claims esm i \<Longrightarrow> (\<And>pkg. smThreads esm t \<notin> {Deleting i pkg, Locking i pkg, Sending i pkg}) \<Longrightarrow>
     claims (set_thread t d esm) i"
  unfolding claims_def set_thread_def by simp (metis)

lemma sends_set_thread:
  "sends esm i \<Longrightarrow> (\<And>pkg. smThreads esm t \<noteq> Sending i pkg) \<Longrightarrow> sends (set_thread t d esm) i"
  unfolding sends_def set_thread_def by simp (metis)

lemma claims_simps [simp]:
  "claims (upd_session s f esm) i = claims esm i" "sends (upd_session s f esm) i = sends esm i"
  "claims (RemoveSession q esm) i = claims esm i" "sends (RemoveSession q esm) i = sends esm i"
  "claims (esm\<lparr>smNodes := h\<rparr>) i = claims esm i" "sends (esm\<lparr>smNodes := h\<rparr>) i = sends esm i"
  "claims (snd (InitSession n esm)) i = claims esm i" "sends (snd (InitSession n esm)) i = sends esm i"
  by (simp_all add: claims_def sends_def upd_session_def RemoveSession_def)

lemma claims_set_thread_new:
  "d \<in> {Deleting s pkg, Locking s pkg, Sending s pkg} \<Longrightarrow> claims (set_thread t d esm) s"
  unfolding claims_def set_thread_def by auto

lemma sends_set_thread_new: "sends (set_thread t (Sending s pkg) esm) s"
  unfolding sends_def set_thread_def by auto

lemma session_simps [simp]:
  "smThreads (upd_session s f esm) = smThreads esm"
  "smThreads (RemoveSession q esm) = smThreads esm"
  "smThreads (set_thread t d esm) = (smThreads esm)(t := d)"
  "smSessions (set_thread t d esm) = smSessions esm"
  "smSessions (RemoveSession q esm) = smSessions esm"
  "length (smSessions (upd_session s f esm)) = length (smSessions esm)"
  "s < length (smSessions esm) \<Longrightarrow> smSessions (upd_session s f esm) ! s = f (smSessions esm ! s)"
  "i \<noteq> s \<Longrightarrow> smSessions (upd_session s f esm) ! i = smSessions esm ! i"
  by (simp_all add: upd_session_def set_thread_def RemoveSession_def)

lemma live_upd:
  assumes "live esm"
    and "s < length (smSessions esm) \<Longrightarrow>
      session_live (smSessions esm ! s) (claims esm s) (sends esm s) \<Longrightarrow>
      session_live (f (smSessions esm ! s)) (claims esm s) (sends esm s)"
  shows "live (upd_session s f esm)"
  by (rule liveI [OF assms(1), where s = s and t = 0 and d = "smThreads esm 0"])
     (use assms(2) in auto)

text \<open>A goroutine that starts to destroy a session.\<close>

lemma live_claim:
  assumes "live esm" "smThreads esm t = Idle"
    and "s < length (smSessions esm) \<Longrightarrow>
      session_live (smSessions esm ! s) (claims esm s) (sends esm s) \<Longrightarrow>
      session_live (f (smSessions esm ! s)) True (sends esm s)"
  shows "live (set_thread t (Deleting s pkg) (upd_session s f esm))"
proof (rule liveI [OF assms(1), where s = s])
  let ?esm' = "set_thread t (Deleting s pkg) (upd_session s f esm)"
  have "claims ?esm' s"
    by (rule claims_set_thread_new) simp
  moreover have "sends esm s \<Longrightarrow> sends ?esm' s"
    using assms(2) by (intro sends_set_thread) simp_all
  ultimately show "session_live (smSessions ?esm' ! s) (claims ?esm' s) (sends ?esm' s)"
    if "s < length (smSessions esm)" "session_live (smSessions esm ! s) (claims esm s) (sends esm s)"
    using that assms(3) by (auto intro: session_live_mono)
qed (use assms(2) in \<open>auto intro!: claims_set_thread sends_set_thread\<close>)

lemma live_do:
  assumes inv: "sm_inv esm" and lv: "live esm" and d: "sm_do esm a = Some (Ret esm')"
  shows "live esm'"
proof (cases a)
  case (Init node)
  with d have e: "esm' = snd (InitSession node esm)" by simp
  from lv show ?thesis
    unfolding live_def by (auto simp: e nth_append less_Suc_eq session_live_def)
next
  case (ReturnChan s)
  with d show ?thesis
    by (auto split: if_splits intro!: live_upd lv simp: session_live_def)
next
  case (FailEncode t s)
  with d show ?thesis
    by (auto split: if_splits intro!: live_claim lv simp: session_live_def)
next
  case (Receive s)
  with d show ?thesis
    by (auto split: if_splits intro!: live_upd lv simp: session_live_def)
next
  case (Tick s)
  with d show ?thesis
    by (auto split: if_splits intro!: live_upd lv simp: session_live_def)
next
  case (Wake t s)
  with d show ?thesis
    by (auto split: if_splits intro!: live_claim lv simp: session_live_def)
next
  case (Process t pkg)
  show ?thesis
  proof (cases "esm' = esm")
    case False
    with Process d obtain s where t: "smThreads esm t = Idle"
      and e: "esm' = set_thread t (Deleting s (Some pkg)) (upd_session s (\<lambda>x. x) esm)"
      by (auto simp: upd_session_def split: if_splits option.splits)
    show ?thesis
      unfolding e by (rule live_claim [OF lv t]) (auto intro: session_live_mono)
  qed (use lv in simp)
next
  case (Delete t)
  with d obtain s pkg where t: "smThreads esm t = Deleting s pkg"
    and e: "esm' = set_thread t (Locking s pkg) (RemoveSession (sSeq (smSessions esm ! s)) esm)"
    by (auto simp: destroy_delete_def split: destroyer.splits)
  have "claims esm' s" unfolding e by (rule claims_set_thread_new) simp
  moreover have "sends esm i \<Longrightarrow> sends esm' i" for i
    unfolding e using t by (intro sends_set_thread) simp_all
  ultimately show ?thesis
    by (intro liveI [OF lv, where s = s and t = t and d = "Locking s pkg"])
       (use t in \<open>auto simp: e intro: session_live_mono intro!: claims_set_thread\<close>)
next
  case (Lock t)
  with d obtain s pkg where t: "smThreads esm t = Locking s pkg"
    and e: "esm' = (if sOpen (smSessions esm ! s)
        then set_thread t (Sending s pkg) (upd_session s (\<lambda>x. x\<lparr>sLocked := True\<rparr>) esm)
        else set_thread t Finished (upd_session s stop_timer esm))"
    by (auto simp: destroy_lock_def Let_def split: destroyer.splits if_splits)
  show ?thesis
  proof (cases "sOpen (smSessions esm ! s)")
    case True
    with e have e: "esm' = set_thread t (Sending s pkg) (upd_session s (\<lambda>x. x\<lparr>sLocked := True\<rparr>) esm)"
      by simp
    have "claims esm' s" unfolding e by (rule claims_set_thread_new) simp
    moreover have "sends esm' s" unfolding e by (rule sends_set_thread_new)
    ultimately show ?thesis
      by (intro liveI [OF lv, where s = s and t = t and d = "Sending s pkg"])
         (use t in \<open>auto simp: e session_live_def intro!: claims_set_thread sends_set_thread\<close>)
  next
    case False
    with e have e: "esm' = set_thread t Finished (upd_session s stop_timer esm)" by simp
    have "sends esm i \<Longrightarrow> sends esm' i" for i
      unfolding e using t by (intro sends_set_thread) simp_all
    then show ?thesis
      by (intro liveI [OF lv, where s = s and t = t and d = Finished])
         (use t False in \<open>auto simp: e session_live_def intro!: claims_set_thread\<close>)
  qed
next
  case (Send t)
  with d obtain s pkg where t: "smThreads esm t = Sending s pkg"
    and r: "sReceive (smSessions esm ! s) = Receiving"
    and e: "esm' = set_thread t Finished
               (upd_session s (\<lambda>x. stop_timer (x\<lparr>sDelivered := sDelivered x @ [pkg],
                   sReceive := Received pkg, sClosed := True, sOpen := False, sLocked := False\<rparr>))
                 (esm\<lparr>smNodes := add_active (sNode (smSessions esm ! s)) (- 1) (smNodes esm)\<rparr>))"
    by (auto simp: destroy_send_def Let_def split: destroyer.splits if_splits)
  show ?thesis
    by (intro liveI [OF lv, where s = s and t = t and d = Finished])
       (use t r in \<open>auto simp: e session_live_def intro!: claims_set_thread sends_set_thread\<close>)
qed

lemma live_start: "sm_start esm \<Longrightarrow> live esm"
  by (auto simp: sm_start_def sm_init_def live_def)

interpretation sm_live: invariant_system sm_start sm_step "\<lambda>esm. sm_inv esm \<and> live esm"
  by unfold_locales (auto simp: sm_step_def sm_inv_start live_start dest: sm_inv_do live_do)

text \<open>What no action undoes.\<close>

lemma sm_do_session:
  assumes d: "sm_do esm a = Some (Ret esm')" and s: "s < length (smSessions esm)"
  shows "s < length (smSessions esm')"
    and "sTimer (smSessions esm ! s) = Stopped \<Longrightarrow> sTimer (smSessions esm' ! s) = Stopped"
    and "sTimer (smSessions esm ! s) = Stopped \<Longrightarrow> sTimerWaits (smSessions esm ! s) \<Longrightarrow>
      sTimerWaits (smSessions esm' ! s)"
    and "sCaller (smSessions esm ! s) = Failed \<Longrightarrow> sCaller (smSessions esm' ! s) = Failed"
proof -
  have "s < length (smSessions esm') \<and>
    (sTimer (smSessions esm ! s) = Stopped \<longrightarrow> sTimer (smSessions esm' ! s) = Stopped) \<and>
    (sTimer (smSessions esm ! s) = Stopped \<longrightarrow> sTimerWaits (smSessions esm ! s) \<longrightarrow>
      sTimerWaits (smSessions esm' ! s)) \<and>
    (sCaller (smSessions esm ! s) = Failed \<longrightarrow> sCaller (smSessions esm' ! s) = Failed)"
    using d s
    by (cases a)
       (auto simp: nth_append upd_session_def set_thread_def RemoveSession_def nth_updated
          destroy_delete_def destroy_lock_def destroy_send_def Let_def stop_timer_def
          split: if_splits option.splits destroyer.splits)
  then show "s < length (smSessions esm')"
    "sTimer (smSessions esm ! s) = Stopped \<Longrightarrow> sTimer (smSessions esm' ! s) = Stopped"
    "sTimer (smSessions esm ! s) = Stopped \<Longrightarrow> sTimerWaits (smSessions esm ! s) \<Longrightarrow>
      sTimerWaits (smSessions esm' ! s)"
    "sCaller (smSessions esm ! s) = Failed \<Longrightarrow> sCaller (smSessions esm' ! s) = Failed"
    by blast+
qed

text \<open>At most \<open>k\<close> further actions bring the caller its result.\<close>

definition served_in :: "nat \<Rightarrow> 'b session_manager \<Rightarrow> nat \<Rightarrow> bool" where
  "served_in k esm s \<longleftrightarrow> (\<exists>acts esm'. length acts \<le> k \<and> sm_run esm acts = Some esm' \<and>
     (\<exists>pkg. sReceive (smSessions esm' ! s) = Received pkg))"

lemma served_in_step:
  "sm_do esm a = Some (Ret esm1) \<Longrightarrow> served_in k esm1 s \<Longrightarrow> served_in (Suc k) esm s"
  unfolding served_in_def
proof (elim exE conjE, intro exI conjI)
  fix acts esm' pkg
  assume "sm_do esm a = Some (Ret esm1)" "sm_run esm1 acts = Some esm'"
  then show "sm_run esm (a # acts) = Some esm'" by simp
qed simp_all

lemma served_in_mono: "served_in k esm s \<Longrightarrow> k \<le> k' \<Longrightarrow> served_in k' esm s"
  unfolding served_in_def by (meson le_trans)

lemma served_sending:
  assumes "sm_inv esm" "smThreads esm t = Sending s pkg" "sReceive (smSessions esm ! s) = Receiving"
  shows "served_in 1 esm s"
proof -
  from assms(1,2) have s: "s < length (smSessions esm)" "sOpen (smSessions esm ! s)"
    using sm_inv_threadD [of esm t s pkg] sm_inv_SendingD by auto
  with sm_inv_nth [OF assms(1) s(1)] have "\<not> sClosed (smSessions esm ! s)"
    by (simp add: chan_ok_def)
  then obtain esm' where d: "sm_do esm (Send t) = Some (Ret esm')"
    and "sReceive (smSessions esm' ! s) = Received pkg"
    using assms(2,3) s by (simp add: destroy_send_def Let_def)
  then have "served_in 0 esm' s"
    unfolding served_in_def by (intro exI [of _ "[]"]) auto
  with served_in_step [OF d] show ?thesis by simp
qed

lemma served_locking:
  assumes "sm_inv esm" "live esm" "smThreads esm t = Locking s pkg"
    and r: "sReceive (smSessions esm ! s) = Receiving"
  shows "served_in 2 esm s"
proof (cases "sLocked (smSessions esm ! s)")
  case True
  have s: "s < length (smSessions esm)"
    using sm_inv_threadD [OF assms(1), of t s pkg] assms(3) by simp
  with assms(2) True obtain u p where "smThreads esm u = Sending s p"
    unfolding live_def session_live_def sends_def by blast
  from served_sending [OF assms(1) this r] show ?thesis by (rule served_in_mono) simp
next
  case False
  have s: "s < length (smSessions esm)"
    using sm_inv_threadD [OF assms(1), of t s pkg] assms(3) by simp
  from sm_inv_nth [OF assms(1) s] r have op: "sOpen (smSessions esm ! s)"
    by (auto simp: chan_ok_def split: if_splits)
  let ?esm1 = "set_thread t (Sending s pkg) (upd_session s (\<lambda>x. x\<lparr>sLocked := True\<rparr>) esm)"
  have d: "sm_do esm (Lock t) = Some (Ret ?esm1)"
    using assms(3) False op by (simp add: destroy_lock_def Let_def)
  have "served_in 1 ?esm1 s"
    by (rule served_sending [OF sm_inv_lock [OF assms(1,3) False op], of t s pkg]) (use s r in simp_all)
  with served_in_step [OF d] show ?thesis by (simp add: numeral_2_eq_2)
qed

lemma served_claimed:
  assumes "sm_inv esm" "live esm" "claims esm s" and r: "sReceive (smSessions esm ! s) = Receiving"
  shows "served_in 3 esm s"
proof -
  from assms(3) obtain t pkg where "smThreads esm t \<in> {Deleting s pkg, Locking s pkg, Sending s pkg}"
    by (auto simp: claims_def)
  then consider "smThreads esm t = Deleting s pkg" | "smThreads esm t = Locking s pkg"
    | "smThreads esm t = Sending s pkg" by blast
  then show ?thesis
  proof cases
    case 1
    then obtain esm1 where d: "sm_do esm (Delete t) = Some (Ret esm1)"
      and e: "smThreads esm1 t = Locking s pkg" "sReceive (smSessions esm1 ! s) = Receiving"
      using r by (simp add: destroy_delete_def)
    from sm_inv_do [OF assms(1) d] live_do [OF assms(1,2) d] e have "served_in 2 esm1 s"
      by (auto intro: served_locking)
    from served_in_step [OF d this] show ?thesis by (simp add: eval_nat_numeral)
  next
    case 2
    from served_locking [OF assms(1,2) this r] show ?thesis by (rule served_in_mono) simp
  next
    case 3
    from served_sending [OF assms(1) this r] show ?thesis by (rule served_in_mono) simp
  qed
qed

lemma served_fired:
  assumes "sm_inv esm" "live esm" "s < length (smSessions esm)" "sTimerWaits (smSessions esm ! s)"
    "sTimer (smSessions esm ! s) = Fired" "sReceive (smSessions esm ! s) = Receiving"
  shows "served_in 4 esm s"
proof -
  from assms(2) obtain t where t: "smThreads esm t = Idle"
    unfolding live_def by (metis (mono_tags, lifting) UNIV_I ex_new_if_finite infinite_UNIV_nat mem_Collect_eq)
  let ?esm1 = "set_thread t (Deleting s None) (upd_session s (\<lambda>x. x\<lparr>sTimerWaits := False\<rparr>) esm)"
  have d: "sm_do esm (Wake t s) = Some (Ret ?esm1)"
    using assms t by simp
  have "claims ?esm1 s" by (rule claims_set_thread_new) simp
  with sm_inv_do [OF assms(1) d] live_do [OF assms(1,2) d] assms have "served_in 3 ?esm1 s"
    by (intro served_claimed) auto
  from served_in_step [OF d this] show ?thesis by (simp add: eval_nat_numeral)
qed

section \<open>Properties\<close>

text \<open>A receiver that nobody interferes with gets the response a goroutine has picked up.\<close>

lemma served_at_once:
  assumes "s < length (smSessions esm)" "sCaller (smSessions esm ! s) = Returned"
    "sReceive (smSessions esm ! s) = NotReceiving" "sOpen (smSessions esm ! s)"
    "\<not> sLocked (smSessions esm ! s)" "\<not> sClosed (smSessions esm ! s)"
  shows "\<exists>esm'. sm_run (set_thread t (Deleting s pkg) esm) [Receive s, Delete t, Lock t, Send t] = Some esm' \<and>
    sReceive (smSessions esm' ! s) = Received pkg \<and> smMap esm' (sSeq (smSessions esm ! s)) = None"
  using assms
  by (simp add: destroy_delete_def destroy_lock_def destroy_send_def RemoveSession_def upd_session_def set_thread_def Let_def)

text \<open>
  C3: in every state the goroutines can reach, no enabled action panics (no send on a closed
  channel), and a session has either been given no result, or exactly one: its channel is then
  closed, the caller has got that result, and a response carries the session's sequence number.
\<close>

theorem one_result_per_session:
  assumes "reaches sm_start sm_step esm" "s < length (smSessions esm)"
  shows "sm_do esm a \<noteq> Some (Panic e) \<and>
    (sDelivered (smSessions esm ! s) = [] \<and> sOpen (smSessions esm ! s) \<and> \<not> sClosed (smSessions esm ! s) \<or>
     (\<exists>pkg. sDelivered (smSessions esm ! s) = [pkg] \<and> sClosed (smSessions esm ! s) \<and>
        sReceive (smSessions esm ! s) = Received pkg \<and>
        (\<forall>p. pkg = Some p \<longrightarrow> GetSeq (GetHead p) = sSeq (smSessions esm ! s))))"
proof
  from sm.reaches_inv [OF assms(1)] have inv: "sm_inv esm" .
  then show "sm_do esm a \<noteq> Some (Panic e)"
    using sm_inv_do by blast
  from sm_inv_nth [OF inv assms(2)]
  show "sDelivered (smSessions esm ! s) = [] \<and> sOpen (smSessions esm ! s) \<and> \<not> sClosed (smSessions esm ! s) \<or>
     (\<exists>pkg. sDelivered (smSessions esm ! s) = [pkg] \<and> sClosed (smSessions esm ! s) \<and>
        sReceive (smSessions esm ! s) = Received pkg \<and>
        (\<forall>p. pkg = Some p \<longrightarrow> GetSeq (GetHead p) = sSeq (smSessions esm ! s)))"
    by (auto simp: chan_ok_def matches_def split: if_splits)
qed


text \<open>
  C17: below 2^64 sessions the sequence numbers are distinct and not 0, the value \<open>Process\<close>
  refuses, and the map leads from a number only to the session that has it.
\<close>

theorem sequence_numbers_distinct:
  assumes "reaches sm_start sm_step esm" "length (smSessions esm) < 2 ^ 64"
  shows "distinct (map sSeq (smSessions esm)) \<and> 0 \<notin> sSeq ` set (smSessions esm) \<and>
    (GetSession q esm = Some s \<longrightarrow> s < length (smSessions esm) \<and> sSeq (smSessions esm ! s) = q)"
proof (intro conjI)
  from sm.reaches_inv [OF assms(1)] have sq: "sSeq (smSessions esm ! i) = of_nat (Suc i)"
    if "i < length (smSessions esm)" for i
    using that by (simp add: sm_inv_def seqs_ok_def)
  have u: "unat (sSeq (smSessions esm ! i)) = Suc i" if "i < length (smSessions esm)" for i
    using that assms(2) sq by (simp add: unat_of_nat del: of_nat_Suc)
  show "distinct (map sSeq (smSessions esm))"
    unfolding distinct_conv_nth by simp (metis Suc_inject u)
  show "0 \<notin> sSeq ` set (smSessions esm)"
    using u by (auto simp: in_set_conv_nth image_iff) (metis nat.distinct(1) unat_0)
  show "GetSession q esm = Some s \<longrightarrow> s < length (smSessions esm) \<and> sSeq (smSessions esm ! s) = q"
    using sm.reaches_inv [OF assms(1)] by (simp add: sm_inv_def map_ok_def GetSession_def)
qed

text \<open>
  C18: from every reachable state a caller that receives on its channel can be served by at
  most five more actions (the tick, the timer goroutine's wake-up, the deletion, the lock, the
  send), whatever the other goroutines have done; it never waits for a result that cannot come.
\<close>

theorem receiver_can_be_served:
  assumes "reaches sm_start sm_step esm" "s < length (smSessions esm)"
    and r: "sReceive (smSessions esm ! s) = Receiving"
  shows "\<exists>acts esm'. length acts \<le> 5 \<and> sm_run esm acts = Some esm' \<and>
    (\<exists>pkg. sReceive (smSessions esm' ! s) = Received pkg)"
proof -
  from sm_live.reaches_inv [OF assms(1)] have inv: "sm_inv esm" and lv: "live esm" by auto
  from sm_inv_nth [OF inv assms(2)] r have op: "sOpen (smSessions esm ! s)"
    by (auto simp: chan_ok_def split: if_splits)
  from lv assms(2) have l: "session_live (smSessions esm ! s) (claims esm s) (sends esm s)"
    by (simp add: live_def)
  consider "claims esm s" | "sTimerWaits (smSessions esm ! s)" "sTimer (smSessions esm ! s) = Fired"
    | "sTimerWaits (smSessions esm ! s)" "sTimer (smSessions esm ! s) = Armed"
    using l op r by (cases "sTimer (smSessions esm ! s)") (auto simp: session_live_def)
  then have "served_in 5 esm s"
  proof cases
    case 1
    from served_claimed [OF inv lv this r] show ?thesis by (rule served_in_mono) simp
  next
    case 2
    from served_fired [OF inv lv assms(2) this r] show ?thesis by (rule served_in_mono) simp
  next
    case 3
    let ?esm1 = "upd_session s (\<lambda>x. x\<lparr>sTimer := Fired\<rparr>) esm"
    from 3 assms(2) have d: "sm_do esm (Tick s) = Some (Ret ?esm1)" by simp
    with sm_inv_do [OF inv d] live_do [OF inv lv d] 3 assms(2) r have "served_in 4 ?esm1 s"
      by (intro served_fired) auto
    from served_in_step [OF d this] show ?thesis by (simp add: eval_nat_numeral)
  qed
  then show ?thesis by (simp add: served_in_def)
qed

text \<open>
  When the response comes in time, \<open>DestorySessionAndRespPkg\<close> stops the timer, and the timer
  goroutine waits on its channel for ever: no later action wakes it, so every request that is
  answered leaks a goroutine.
\<close>

theorem stopped_timer_goroutine_leaks:
  assumes "sm_step\<^sup>*\<^sup>* esm esm'" "s < length (smSessions esm)"
    and "sTimer (smSessions esm ! s) = Stopped" "sTimerWaits (smSessions esm ! s)"
  shows "sTimerWaits (smSessions esm' ! s) \<and> sm_do esm' (Wake t s) = None"
proof -
  from assms have "s < length (smSessions esm') \<and> sTimer (smSessions esm' ! s) = Stopped \<and>
      sTimerWaits (smSessions esm' ! s)"
    by (induction rule: rtranclp_induct) (auto simp: sm_step_def dest: sm_do_session)
  then show ?thesis by simp
qed

text \<open>
  C40: a request whose encoding fails never returns. \<open>DestorySessionAndRespPkg(session, nil)\<close> sends
  on an unbuffered channel that its caller has not given to anybody; in every later state the
  session is still open, its mutex is never released once taken, and the send is never enabled.
\<close>

theorem encode_failure_blocks:
  assumes "reaches sm_start sm_step esm" "s < length (smSessions esm)"
    and "sCaller (smSessions esm ! s) = Failed" and steps: "sm_step\<^sup>*\<^sup>* esm esm'"
  shows "sOpen (smSessions esm' ! s) \<and> sDelivered (smSessions esm' ! s) = [] \<and>
    (smThreads esm' t = Sending s pkg \<longrightarrow> sm_do esm' (Send t) = None)"
proof -
  from steps assms(2,3)
  have s: "s < length (smSessions esm')" "sCaller (smSessions esm' ! s) = Failed"
    by (induction rule: rtranclp_induct) (auto simp: sm_step_def dest: sm_do_session)
  from reaches_steps [OF steps assms(1)] have inv: "sm_inv esm'" and lv: "live esm'"
    using sm_live.reaches_inv by auto
  from lv s have r: "sReceive (smSessions esm' ! s) = NotReceiving"
    unfolding live_def session_live_def by auto
  with sm_inv_nth [OF inv s(1)] have op: "sOpen (smSessions esm' ! s)"
    "sDelivered (smSessions esm' ! s) = []" "\<not> sClosed (smSessions esm' ! s)"
    by (auto simp: chan_ok_def split: if_splits)
  with r show ?thesis by (simp add: destroy_send_def Let_def)
qed

section \<open>Witnesses\<close>

definition idle_nodes :: node_heap where
  "idle_nodes = (\<lambda>_. \<lparr>Ip = ''10.0.0.1'', Port = 8001, Weight = 100, Active = 0\<rparr>)"

text \<open>A request that is answered, and one whose encoding fails.\<close>

definition answered_run :: "nat sm_action list" where
  "answered_run = [Init 0, ReturnChan 0, Receive 0,
     Process 0 (NewPackageWithBodyData FORMAT_MSGPACK (SetSeq 1 NewEasyHead) []), Delete 0, Lock 0, Send 0]"

definition failed_run :: "nat sm_action list" where
  "failed_run = [Init 0, FailEncode 0 0, Delete 0, Lock 0]"

definition answered_state :: "nat session_manager" where
  "answered_state = the (sm_run (sm_init idle_nodes) answered_run)"

definition receiving_state :: "nat session_manager" where
  "receiving_state = the (sm_run (sm_init idle_nodes) (take 3 answered_run))"

definition failed_state :: "nat session_manager" where
  "failed_state = the (sm_run (sm_init idle_nodes) failed_run)"

lemma answered_reaches: "reaches sm_start sm_step answered_state"
proof -
  have "\<not> Option.is_none (sm_run (sm_init idle_nodes) answered_run)" by code_simp
  then show ?thesis
    unfolding answered_state_def
    by (intro sm_run_reaches [of idle_nodes answered_run])
       (auto simp: Option.is_none_def idle_nodes_def)
qed

lemma receiving_reaches: "reaches sm_start sm_step receiving_state"
proof -
  have "\<not> Option.is_none (sm_run (sm_init idle_nodes) (take 3 answered_run))" by code_simp
  then show ?thesis
    unfolding receiving_state_def
    by (intro sm_run_reaches [of idle_nodes "take 3 answered_run"])
       (auto simp: Option.is_none_def idle_nodes_def)
qed

lemma failed_reaches: "reaches sm_start sm_step failed_state"
proof -
  have "\<not> Option.is_none (sm_run (sm_init idle_nodes) failed_run)" by code_simp
  then show ?thesis
    unfolding failed_state_def
    by (intro sm_run_reaches [of idle_nodes failed_run])
       (auto simp: Option.is_none_def idle_nodes_def)
qed

lemma one_result_per_session_witness:
  "sm_do answered_state (Send 0) \<noteq> Some (Panic ClosedChannel) \<and>
   (\<exists>pkg. sDelivered (smSessions answered_state ! 0) = [pkg] \<and> sClosed (smSessions answered_state ! 0) \<and>
      sReceive (smSessions answered_state ! 0) = Received pkg \<and>
      (\<forall>p. pkg = Some p \<longrightarrow> GetSeq (GetHead p) = sSeq (smSessions answered_state ! 0)))"
proof -
  have "0 < length (smSessions answered_state)" by code_simp
  moreover have "\<not> sOpen (smSessions answered_state ! 0)" by code_simp
  ultimately show ?thesis
    using one_result_per_session [OF answered_reaches, of 0 "Send 0" ClosedChannel] by blast
qed


lemma sequence_numbers_distinct_witness:
  "distinct (map sSeq (smSessions receiving_state)) \<and> 0 \<notin> sSeq ` set (smSessions receiving_state) \<and>
   GetSession 1 receiving_state = Some 0 \<and> sSeq (smSessions receiving_state ! 0) = 1"
proof -
  have "length (smSessions receiving_state) = 1" by code_simp
  moreover have "GetSession 1 receiving_state = Some 0" by code_simp
  ultimately show ?thesis
    using sequence_numbers_distinct [OF receiving_reaches, of 1 0] by simp
qed

lemma receiver_can_be_served_witness:
  "\<exists>acts esm'. length acts \<le> 5 \<and> sm_run receiving_state acts = Some esm' \<and>
    (\<exists>pkg. sReceive (smSessions esm' ! 0) = Received pkg)"
proof (rule receiver_can_be_served [OF receiving_reaches])
  show "0 < length (smSessions receiving_state)" by code_simp
  show "sReceive (smSessions receiving_state ! 0) = Receiving"
    by (simp add: receiving_state_def answered_run_def upd_session_def numeral_3_eq_3 sm_init_def)
qed

lemma stopped_timer_goroutine_leaks_witness:
  "sTimerWaits (smSessions answered_state ! 0) \<and> sm_do answered_state (Wake 1 0) = None"
proof (rule stopped_timer_goroutine_leaks [of answered_state])
  show "sm_step\<^sup>*\<^sup>* answered_state answered_state" by simp
  show "0 < length (smSessions answered_state)" by code_simp
  show "sTimer (smSessions answered_state ! 0) = Stopped" by code_simp
  show "sTimerWaits (smSessions answered_state ! 0)" by code_simp
qed

lemma encode_failure_blocks_witness:
  "smThreads failed_state 0 = Sending 0 None \<and> sm_do failed_state (Send 0) = None"
proof -
  have t: "smThreads failed_state 0 = Sending 0 None" by code_simp
  have "0 < length (smSessions failed_state)" by code_simp
  moreover have "sCaller (smSessions failed_state ! 0) = Failed" by code_simp
  ultimately show ?thesis
    using encode_failure_blocks [OF failed_reaches _ _ rtranclp.rtrancl_refl, of 0 0 None] t by simp
qed

end
