(* ===== verification/Generic_Pool.thy ===== *)
theory Generic_Pool
  imports Go_Prelude
begin

text \<open>
  The connection pool (\<open>pool.go\<close>). A resource is known through the interface \<open>Poolable\<close>, the
  method table \<open>poolable\<close>; the pool's resources live in \<open>gpConns\<close>, in the order the factory made
  them, and are referred to by position. The factory is \<open>connFactory n\<close>, the result of its
  \<open>n\<close>-th call. Times are nanoseconds.

  The first part has the methods as one goroutine runs them, with the outcome of a wait as an
  argument; the second part is any number of goroutines that use the pool at once, one atomic
  step at a time.
\<close>

section \<open>Resources and the pool\<close>

record 'c poolable =
  pIsClose :: "'c \<Rightarrow> bool"
  pActiveTime :: "'c \<Rightarrow> int"
  pClose :: "'c \<Rightarrow> 'c"

type_synonym conn_ref = nat

record 'c generic_pool =
  gpChan :: "conn_ref list"     \<comment> \<open>\<open>poolChan\<close>, first in first out\<close>
  gpCap :: int                  \<comment> \<open>its capacity\<close>
  gpClosed :: bool              \<comment> \<open>it has been closed\<close>
  gpMaxSize :: int
  gpCurSize :: int
  gpMinSize :: int
  gpShutdown :: bool
  gpLifetime :: int
  gpConns :: "'c list"
  gpAttempts :: nat             \<comment> \<open>calls of \<open>connFactory\<close> so far\<close>

type_synonym 'c conn_factory = "nat \<Rightarrow> go_error + 'c"

definition add_size :: "int \<Rightarrow> 'c generic_pool \<Rightarrow> 'c generic_pool" where
  "add_size d pool = pool\<lparr>gpCurSize := i32 (gpCurSize pool + d)\<rparr>"

text \<open>One call of the factory, with the counter it increments on success.\<close>

definition create :: "'c conn_factory \<Rightarrow> 'c generic_pool \<Rightarrow> (go_error + conn_ref) \<times> 'c generic_pool" where
  "create connFactory pool =
     (let pool' = pool\<lparr>gpAttempts := Suc (gpAttempts pool)\<rparr> in
      case connFactory (gpAttempts pool) of
        Inl err \<Rightarrow> (Inl err, pool')
      | Inr c \<Rightarrow> (Inr (length (gpConns pool)), add_size 1 (pool'\<lparr>gpConns := gpConns pool @ [c]\<rparr>)))"

fun fill :: "nat \<Rightarrow> 'c conn_factory \<Rightarrow> 'c generic_pool \<Rightarrow> 'c generic_pool" where
  "fill 0 connFactory pool = pool"
| "fill (Suc n) connFactory pool =
     (case create connFactory pool of
        (Inl err, pool) \<Rightarrow> fill n connFactory pool
      | (Inr c, pool) \<Rightarrow> fill n connFactory (pool\<lparr>gpChan := gpChan pool @ [c]\<rparr>))"

definition NewGenericPool :: "int \<Rightarrow> int \<Rightarrow> int \<Rightarrow> 'c conn_factory \<Rightarrow> 'c generic_pool outcome" where
  "NewGenericPool minSize maxSize lifetime connFactory =
     (let maxSize = (if maxSize \<le> 0 \<or> minSize > maxSize then minSize else maxSize) in
      if i32 (maxSize * 2) < 0 then Panic MakeChanSize
      else Ret (fill (nat minSize) connFactory
        \<lparr>gpChan = [], gpCap = i32 (maxSize * 2), gpClosed = False, gpMaxSize = maxSize, gpCurSize = 0,
         gpMinSize = minSize, gpShutdown = False, gpLifetime = lifetime, gpConns = [], gpAttempts = 0\<rparr>))"

section \<open>The methods\<close>

text \<open>A receive that does not block: a value, the nil of a closed channel, or nothing.\<close>

datatype received = Nothing | NilConn | Conn conn_ref

definition poll :: "'c generic_pool \<Rightarrow> received \<times> 'c generic_pool" where
  "poll pool =
     (case gpChan pool of
        c # cs \<Rightarrow> (Conn c, pool\<lparr>gpChan := cs\<rparr>)
      | [] \<Rightarrow> (if gpClosed pool then NilConn else Nothing, pool))"

definition close_conn :: "'c poolable \<Rightarrow> conn_ref \<Rightarrow> 'c generic_pool \<Rightarrow> 'c generic_pool" where
  "close_conn m c pool = pool\<lparr>gpConns := (gpConns pool)[c := pClose m (gpConns pool ! c)]\<rparr>"

definition Close :: "'c poolable \<Rightarrow> conn_ref \<Rightarrow> 'c generic_pool \<Rightarrow> 'c generic_pool" where
  "Close m c pool = add_size (- 1) (close_conn m c pool)"

text \<open>
  \<open>getOrCreate\<close>: \<open>arrival\<close> is what the five-second wait at the size limit brings, \<open>Nothing\<close> when
  it runs out.
\<close>

definition getOrCreate ::
    "'c conn_factory \<Rightarrow> received \<Rightarrow> 'c generic_pool \<Rightarrow> (go_error + received) \<times> 'c generic_pool" where
  "getOrCreate connFactory arrival pool =
     (if gpShutdown pool then (Inl ''pool have been shutdown'', pool)
      else case poll pool of
        (Nothing, _) \<Rightarrow>
          (if gpCurSize pool \<ge> gpMaxSize pool then
             (case arrival of Nothing \<Rightarrow> (Inl ''no connection available'', pool)
              | _ \<Rightarrow> (Inr arrival, pool))
           else case create connFactory pool of
             (Inl err, pool) \<Rightarrow> (Inl err, pool)
           | (Inr c, pool) \<Rightarrow> (Inr (Conn c), pool))
      | (r, pool) \<Rightarrow> (Inr r, pool))"

text \<open>The two tests \<open>Acquire\<close> makes on what it got: \<open>None\<close> to try again.\<close>

definition vet :: "'c poolable \<Rightarrow> int \<Rightarrow> conn_ref \<Rightarrow> 'c generic_pool \<Rightarrow> conn_ref option \<times> 'c generic_pool" where
  "vet m now c pool =
     (if pIsClose m (gpConns pool ! c) then (None, add_size (- 1) pool)
      else if gpLifetime pool > 0 \<and> pActiveTime m (gpConns pool ! c) + gpLifetime pool < now
           then (None, Close m c pool)
      else (Some c, pool))"

text \<open>
  The loop of \<open>Acquire\<close> ends only when a usable resource or an error turns up, so it runs on fuel;
  \<open>None\<close> means that the fuel did not suffice.
\<close>

fun acquire_loop :: "nat \<Rightarrow> 'c poolable \<Rightarrow> 'c conn_factory \<Rightarrow> int \<Rightarrow> (nat \<Rightarrow> received) \<Rightarrow> 'c generic_pool \<Rightarrow>
    ((go_error + conn_ref) outcome \<times> 'c generic_pool) option" where
  "acquire_loop 0 m connFactory now arrivals pool = None"
| "acquire_loop (Suc n) m connFactory now arrivals pool =
     (case getOrCreate connFactory (arrivals n) pool of
        (Inl err, pool) \<Rightarrow> Some (Ret (Inl err), pool)
      | (Inr (Conn c), pool) \<Rightarrow>
          (case vet m now c pool of
             (None, pool) \<Rightarrow> acquire_loop n m connFactory now arrivals pool
           | (Some c, pool) \<Rightarrow> Some (Ret (Inr c), pool))
      | (Inr _, pool) \<Rightarrow> Some (Panic NilDeref, pool))"

definition Acquire :: "nat \<Rightarrow> 'c poolable \<Rightarrow> 'c conn_factory \<Rightarrow> int \<Rightarrow> (nat \<Rightarrow> received) \<Rightarrow> 'c generic_pool \<Rightarrow>
    ((go_error + conn_ref) outcome \<times> 'c generic_pool) option" where
  "Acquire fuel m connFactory now arrivals pool =
     (if gpShutdown pool then Some (Ret (Inl ''pool have been shutdown''), pool)
      else acquire_loop fuel m connFactory now arrivals pool)"

text \<open>\<open>Release\<close>: \<open>None\<close> when it blocks on a full channel.\<close>

definition Release :: "conn_ref \<Rightarrow> 'c generic_pool \<Rightarrow> (go_error option outcome \<times> 'c generic_pool) option" where
  "Release c pool =
     (if gpShutdown pool then Some (Ret (Some ''pool have benn shutdown''), pool)
      else if gpClosed pool then Some (Panic ClosedChannel, pool)
      else if int (length (gpChan pool)) < gpCap pool
           then Some (Ret None, pool\<lparr>gpChan := gpChan pool @ [c]\<rparr>)
      else None)"

definition IsShutDown :: "'c generic_pool \<Rightarrow> bool" where
  "IsShutDown pool = gpShutdown pool"

fun drain :: "'c poolable \<Rightarrow> conn_ref list \<Rightarrow> 'c generic_pool \<Rightarrow> 'c generic_pool" where
  "drain m [] pool = pool\<lparr>gpChan := []\<rparr>"
| "drain m (c # cs) pool = drain m cs (Close m c (pool\<lparr>gpChan := cs\<rparr>))"

definition CloseAll :: "'c poolable \<Rightarrow> 'c generic_pool \<Rightarrow> 'c generic_pool outcome" where
  "CloseAll m pool =
     (if gpShutdown pool then Ret pool
      else if gpClosed pool then Panic NilDeref
      else Ret (drain m (gpChan pool) pool))"

definition Shutdown :: "'c poolable \<Rightarrow> 'c generic_pool \<Rightarrow> (go_error option \<times> 'c generic_pool) outcome" where
  "Shutdown m pool =
     (if gpShutdown pool then Ret (Some ''pool have been shutdown'', pool)
      else if gpClosed pool then Panic ClosedChannel
      else Ret (None, drain m (gpChan pool) (pool\<lparr>gpShutdown := True, gpClosed := True\<rparr>)))"

section \<open>Sequential behaviour\<close>

definition usable :: "'c poolable \<Rightarrow> int \<Rightarrow> 'c generic_pool \<Rightarrow> conn_ref \<Rightarrow> bool" where
  "usable m now pool c \<longleftrightarrow> \<not> pIsClose m (gpConns pool ! c) \<and>
     \<not> (gpLifetime pool > 0 \<and> pActiveTime m (gpConns pool ! c) + gpLifetime pool < now)"

lemma add_size_simps [simp]:
  "gpChan (add_size d pool) = gpChan pool" "gpConns (add_size d pool) = gpConns pool"
  "gpShutdown (add_size d pool) = gpShutdown pool" "gpClosed (add_size d pool) = gpClosed pool"
  "gpMaxSize (add_size d pool) = gpMaxSize pool" "gpLifetime (add_size d pool) = gpLifetime pool"
  "gpAttempts (add_size d pool) = gpAttempts pool" "gpCap (add_size d pool) = gpCap pool"
  "gpCurSize (add_size d pool) = i32 (gpCurSize pool + d)"
  by (simp_all add: add_size_def)

lemma Close_simps [simp]:
  "gpChan (Close m c pool) = gpChan pool"
  "gpConns (Close m c pool) = (gpConns pool)[c := pClose m (gpConns pool ! c)]"
  "gpShutdown (Close m c pool) = gpShutdown pool" "gpClosed (Close m c pool) = gpClosed pool"
  "gpMaxSize (Close m c pool) = gpMaxSize pool" "gpLifetime (Close m c pool) = gpLifetime pool"
  "gpAttempts (Close m c pool) = gpAttempts pool" "gpCap (Close m c pool) = gpCap pool"
  "gpCurSize (Close m c pool) = i32 (gpCurSize pool - 1)"
  by (simp_all add: Close_def close_conn_def)

lemma usable_add_size [simp]: "usable m now (add_size d pool) c = usable m now pool c"
  by (simp add: usable_def)

lemma usable_Close [simp]: "c \<noteq> c' \<Longrightarrow> usable m now (Close m c pool) c' = usable m now pool c'"
  by (simp add: usable_def)

lemma usable_gpChan [simp]: "usable m now (pool\<lparr>gpChan := cs\<rparr>) c = usable m now pool c"
  by (simp add: usable_def)

text \<open>A resource that cannot be used leaves the pool; one that can is returned as it is.\<close>

lemma vet_usable: "usable m now pool c \<Longrightarrow> vet m now c pool = (Some c, pool)"
  by (auto simp: vet_def usable_def)

lemma vet_dead:
  assumes "\<not> usable m now pool c"
  obtains pool' where "vet m now c pool = (None, pool')" "gpChan pool' = gpChan pool"
    "gpCurSize pool' = i32 (gpCurSize pool - 1)" "gpShutdown pool' = gpShutdown pool"
    "gpMaxSize pool' = gpMaxSize pool" "gpClosed pool' = gpClosed pool" "gpLifetime pool' = gpLifetime pool"
    "gpAttempts pool' = gpAttempts pool" "length (gpConns pool') = length (gpConns pool)"
    "\<And>c'. c' \<noteq> c \<Longrightarrow> gpConns pool' ! c' = gpConns pool ! c'"
proof (cases "pIsClose m (gpConns pool ! c)")
  case True
  with that [of "add_size (- 1) pool"] show ?thesis by (simp add: vet_def)
next
  case False
  with assms that [of "Close m c pool"] show ?thesis by (auto simp: vet_def usable_def)
qed

text \<open>The dead resources at the head of the queue are dropped one after the other.\<close>

lemma acquire_skips_dead:
  assumes "\<not> gpShutdown pool" "gpChan pool = dead @ rest" "distinct (gpChan pool)"
    "\<forall>d \<in> set dead. \<not> usable m now pool d"
  shows "\<exists>pool'. acquire_loop (length dead + n) m connFactory now arrivals pool =
      acquire_loop n m connFactory now arrivals pool' \<and>
    gpChan pool' = rest \<and> gpCurSize pool' = (if dead = [] then gpCurSize pool else i32 (gpCurSize pool - int (length dead))) \<and>
    \<not> gpShutdown pool' \<and> gpMaxSize pool' = gpMaxSize pool \<and> gpClosed pool' = gpClosed pool \<and>
    gpLifetime pool' = gpLifetime pool \<and> gpAttempts pool' = gpAttempts pool \<and>
    length (gpConns pool') = length (gpConns pool) \<and>
    (\<forall>c. c \<notin> set dead \<longrightarrow> gpConns pool' ! c = gpConns pool ! c)"
  using assms
proof (induction dead arbitrary: pool)
  case (Cons d dead)
  let ?p = "pool\<lparr>gpChan := dead @ rest\<rparr>"
  have "\<not> usable m now ?p d" using Cons.prems(4) by simp
  then obtain pool1 where v: "vet m now d ?p = (None, pool1)" "gpChan pool1 = dead @ rest"
    "gpCurSize pool1 = i32 (gpCurSize pool - 1)" "gpShutdown pool1 = gpShutdown pool"
    "gpMaxSize pool1 = gpMaxSize pool" "gpClosed pool1 = gpClosed pool" "gpLifetime pool1 = gpLifetime pool"
    "gpAttempts pool1 = gpAttempts pool" "length (gpConns pool1) = length (gpConns pool)"
    "\<And>c'. c' \<noteq> d \<Longrightarrow> gpConns pool1 ! c' = gpConns pool ! c'"
    by (rule vet_dead) simp_all
  have one: "acquire_loop (length (d # dead) + n) m connFactory now arrivals pool =
      acquire_loop (length dead + n) m connFactory now arrivals pool1"
    using Cons.prems(1,2) v(1) by (simp add: getOrCreate_def poll_def)
  have "\<forall>e \<in> set dead. \<not> usable m now pool1 e"
  proof
    fix e assume e: "e \<in> set dead"
    with Cons.prems(2,3) have "e \<noteq> d" by auto
    with v(7,10) Cons.prems(4) e show "\<not> usable m now pool1 e"
      by (auto simp: usable_def)
  qed
  with Cons.IH [of pool1] Cons.prems v(2,4) obtain pool2 where p2:
    "acquire_loop (length dead + n) m connFactory now arrivals pool1 = acquire_loop n m connFactory now arrivals pool2"
    "gpChan pool2 = rest"
    "gpCurSize pool2 = (if dead = [] then gpCurSize pool1 else i32 (gpCurSize pool1 - int (length dead)))"
    "\<not> gpShutdown pool2" "gpMaxSize pool2 = gpMaxSize pool1" "gpClosed pool2 = gpClosed pool1"
    "gpLifetime pool2 = gpLifetime pool1" "gpAttempts pool2 = gpAttempts pool1"
    "length (gpConns pool2) = length (gpConns pool1)"
    "\<forall>c. c \<notin> set dead \<longrightarrow> gpConns pool2 ! c = gpConns pool1 ! c"
    by auto
  have "gpCurSize pool2 = i32 (gpCurSize pool - int (length (d # dead)))"
    using p2(3) v(3) by (simp add: i32_i32_diff algebra_simps split: if_splits)
  with one p2 v show ?case
    by (intro exI [of _ pool2]) simp
qed (auto intro: exI [of _ pool])

text \<open>Draining: every queued resource is closed once and leaves the count.\<close>

lemma drain_simps:
  "gpChan (drain m cs pool) = []"
  "gpShutdown (drain m cs pool) = gpShutdown pool" "gpClosed (drain m cs pool) = gpClosed pool"
  "length (gpConns (drain m cs pool)) = length (gpConns pool)"
  "in_i32 (gpCurSize pool) \<Longrightarrow> gpCurSize (drain m cs pool) = i32 (gpCurSize pool - int (length cs))"
proof (induction cs arbitrary: pool)
  case (Cons c cs)
  {
    case 5
    with Cons.IH(5) [of "Close m c (pool\<lparr>gpChan := cs\<rparr>)"] i32_range show ?case
      by (simp add: i32_i32_diff algebra_simps)
  }
qed (simp_all add: i32_id)

lemma drain_other: "c \<notin> set cs \<Longrightarrow> gpConns (drain m cs pool) ! c = gpConns pool ! c"
  by (induction cs arbitrary: pool) auto

text \<open>What the pool asks of a \<open>Poolable\<close>: a closed resource says so, and stays closed.\<close>

locale poolable_contract =
  fixes m :: "'c poolable"
  assumes close_closes: "pIsClose m (pClose m x)"
begin

lemma Close_not_usable: "c < length (gpConns pool) \<Longrightarrow> \<not> usable m now (Close m c pool) c"
  by (simp add: usable_def close_closes)

lemma Close_keeps_closed:
  "pIsClose m (gpConns pool ! d) \<Longrightarrow> pIsClose m (gpConns (Close m c pool) ! d)"
proof (cases "d < length (gpConns pool)")
  case True
  then show "pIsClose m (gpConns pool ! d) \<Longrightarrow> pIsClose m (gpConns (Close m c pool) ! d)"
    by (simp add: nth_updated close_closes)
next
  case False
  show "pIsClose m (gpConns pool ! d) \<Longrightarrow> pIsClose m (gpConns (Close m c pool) ! d)"
    using False by (cases "c = d") (simp_all add: list_update_beyond)
qed

lemma drain_keeps_closed:
  "pIsClose m (gpConns pool ! d) \<Longrightarrow> pIsClose m (gpConns (drain m cs pool) ! d)"
proof (induction cs arbitrary: pool)
  case (Cons c cs)
  then show ?case
    using Close_keeps_closed [of "pool\<lparr>gpChan := cs\<rparr>" d c] by simp
qed simp

lemma drain_closes:
  "d \<in> set cs \<Longrightarrow> d < length (gpConns pool) \<Longrightarrow> pIsClose m (gpConns (drain m cs pool) ! d)"
proof (induction cs arbitrary: pool)
  case (Cons c cs)
  show ?case
  proof (cases "d = c")
    case True
    with Cons.prems have "pIsClose m (gpConns (Close m c (pool\<lparr>gpChan := cs\<rparr>)) ! d)"
      by (simp add: close_closes)
    then show ?thesis by (simp add: drain_keeps_closed)
  next
    case False
    with Cons.prems Cons.IH [of "Close m c (pool\<lparr>gpChan := cs\<rparr>)"] show ?thesis by simp
  qed
qed simp

text \<open>\<open>Shutdown\<close> closes every queued resource, and no resource can be acquired afterwards.\<close>

lemma Shutdown_closes:
  assumes "\<not> gpShutdown pool" "\<not> gpClosed pool" "in_i32 (gpCurSize pool)"
    "\<forall>c \<in> set (gpChan pool). c < length (gpConns pool)"
  shows "\<exists>pool'. Shutdown m pool = Ret (None, pool') \<and> IsShutDown pool' \<and> gpChan pool' = [] \<and>
    gpCurSize pool' = i32 (gpCurSize pool - int (length (gpChan pool))) \<and>
    (\<forall>c \<in> set (gpChan pool). pIsClose m (gpConns pool' ! c)) \<and>
    Acquire fuel m connFactory now arrivals pool' = Some (Ret (Inl ''pool have been shutdown''), pool') \<and>
    Release r pool' = Some (Ret (Some ''pool have benn shutdown''), pool')"
  using assms drain_closes [of _ "gpChan pool" "pool\<lparr>gpShutdown := True, gpClosed := True\<rparr>"]
  by (simp add: Shutdown_def IsShutDown_def drain_simps Acquire_def Release_def)

end

section \<open>Goroutines that share the pool\<close>

text \<open>
  Where a goroutine is: in \<open>Acquire\<close> (before the poll, at the size check, waiting, before the
  dial, with a resource to vet), holding a resource, at the send of \<open>Release\<close>, in \<open>CloseAll\<close>, or
  in \<open>Shutdown\<close> (past its check, then in the draining loop).
\<close>

datatype pool_thread = PIdle | PStart | PCheck | PWait | PDial | PGot conn_ref
  | PHold conn_ref | PReleasing conn_ref | PDrain | PShutting | PRange

datatype pool_action = AcqStart | Poll | Check | Recv | Timeout | Dial | Vet int
  | RelStart | Put | Drop | AllStart | DrainStep | ShutStart | ShutClose | RangeStep

record 'c pool_world =
  pwPool :: "'c generic_pool"
  pwThreads :: "pool_thread list"

definition go_on :: "nat \<Rightarrow> pool_thread \<Rightarrow> 'c generic_pool \<Rightarrow> 'c pool_world \<Rightarrow> 'c pool_world outcome option" where
  "go_on t th pool w = Some (Ret \<lparr>pwPool = pool, pwThreads = (pwThreads w)[t := th]\<rparr>)"

fun pool_do :: "'c poolable \<Rightarrow> 'c conn_factory \<Rightarrow> 'c pool_world \<Rightarrow> nat \<Rightarrow> pool_action \<Rightarrow>
    'c pool_world outcome option" where
  "pool_do m connFactory w t a =
     (let pool = pwPool w in
      if t \<ge> length (pwThreads w) then None else
      case (pwThreads w ! t, a) of
        (PIdle, AcqStart) \<Rightarrow> go_on t (if gpShutdown pool then PIdle else PStart) pool w
      | (PStart, Poll) \<Rightarrow>
          (if gpShutdown pool then go_on t PIdle pool w
           else case poll pool of
             (Conn c, pool) \<Rightarrow> go_on t (PGot c) pool w
           | (NilConn, pool) \<Rightarrow> Some (Panic NilDeref)
           | (Nothing, pool) \<Rightarrow> go_on t PCheck pool w)
      | (PCheck, Check) \<Rightarrow> go_on t (if gpCurSize pool \<ge> gpMaxSize pool then PWait else PDial) pool w
      | (PWait, Recv) \<Rightarrow>
          (case poll pool of
             (Conn c, pool) \<Rightarrow> go_on t (PGot c) pool w
           | (NilConn, pool) \<Rightarrow> Some (Panic NilDeref)
           | (Nothing, pool) \<Rightarrow> None)
      | (PWait, Timeout) \<Rightarrow> go_on t PIdle pool w
      | (PDial, Dial) \<Rightarrow>
          (case create connFactory pool of
             (Inl err, pool) \<Rightarrow> go_on t PIdle pool w
           | (Inr c, pool) \<Rightarrow> go_on t (PGot c) pool w)
      | (PGot c, Vet now) \<Rightarrow>
          (case vet m now c pool of
             (None, pool) \<Rightarrow> go_on t PStart pool w
           | (Some c, pool) \<Rightarrow> go_on t (PHold c) pool w)
      | (PHold c, RelStart) \<Rightarrow> go_on t (if gpShutdown pool then PHold c else PReleasing c) pool w
      | (PHold c, Drop) \<Rightarrow> go_on t PIdle (Close m c pool) w
      | (PReleasing c, Put) \<Rightarrow>
          (if gpClosed pool then Some (Panic ClosedChannel)
           else if int (length (gpChan pool)) < gpCap pool
                then go_on t PIdle (pool\<lparr>gpChan := gpChan pool @ [c]\<rparr>) w
           else None)
      | (PIdle, AllStart) \<Rightarrow> go_on t (if gpShutdown pool then PIdle else PDrain) pool w
      | (PDrain, DrainStep) \<Rightarrow>
          (case poll pool of
             (Conn c, pool) \<Rightarrow> go_on t PDrain (Close m c pool) w
           | (NilConn, pool) \<Rightarrow> Some (Panic NilDeref)
           | (Nothing, pool) \<Rightarrow> go_on t PIdle pool w)
      | (PIdle, ShutStart) \<Rightarrow> go_on t (if gpShutdown pool then PIdle else PShutting) pool w
      | (PShutting, ShutClose) \<Rightarrow>
          (if gpClosed pool then Some (Panic ClosedChannel)
           else go_on t PRange (pool\<lparr>gpShutdown := True, gpClosed := True\<rparr>) w)
      | (PRange, RangeStep) \<Rightarrow>
          (case poll pool of
             (Conn c, pool) \<Rightarrow> go_on t PRange (Close m c pool) w
           | (NilConn, pool) \<Rightarrow> go_on t PIdle pool w
           | (Nothing, pool) \<Rightarrow> None)
      | _ \<Rightarrow> None)"

declare pool_do.simps [simp del]

definition pool_step :: "'c poolable \<Rightarrow> 'c conn_factory \<Rightarrow> 'c pool_world \<Rightarrow> 'c pool_world \<Rightarrow> bool" where
  "pool_step m connFactory w w' \<longleftrightarrow> (\<exists>t a. pool_do m connFactory w t a = Some (Ret w'))"

lemma pool_step_intro: "pool_do m connFactory w t a = Some (Ret w') \<Longrightarrow> pool_step m connFactory w w'"
  unfolding pool_step_def by blast

fun pool_run :: "'c poolable \<Rightarrow> 'c conn_factory \<Rightarrow> 'c pool_world \<Rightarrow> (nat \<times> pool_action) list \<Rightarrow>
    'c pool_world outcome option" where
  "pool_run m connFactory w [] = Some (Ret w)"
| "pool_run m connFactory w ((t, a) # acts) =
     (case pool_do m connFactory w t a of
        Some (Ret w') \<Rightarrow> pool_run m connFactory w' acts
      | r \<Rightarrow> r)"

definition pool_start :: "'c conn_factory \<Rightarrow> 'c pool_world \<Rightarrow> bool" where
  "pool_start connFactory w \<longleftrightarrow> (\<exists>minSize maxSize lifetime n.
     NewGenericPool minSize maxSize lifetime connFactory = Ret (pwPool w) \<and>
     pwThreads w = replicate (Suc n) PIdle \<and> 0 < gpMaxSize (pwPool w) \<and>
     gpMaxSize (pwPool w) + int n < 2 ^ 30)"

subsection \<open>The invariant\<close>

fun holds :: "pool_thread \<Rightarrow> bool" where
  "holds (PGot c) = True"
| "holds (PHold c) = True"
| "holds (PReleasing c) = True"
| "holds _ = False"

definition held :: "'c pool_world \<Rightarrow> int" where
  "held w = int (length (filter holds (pwThreads w)))"

definition dialing :: "'c pool_world \<Rightarrow> int" where
  "dialing w = int (length (filter (\<lambda>th. th = PDial) (pwThreads w)))"

definition pool_inv :: "'c pool_world \<Rightarrow> bool" where
  "pool_inv w \<longleftrightarrow>
     gpCurSize (pwPool w) = int (length (gpChan (pwPool w))) + held w \<and>
     gpCurSize (pwPool w) + dialing w \<le> gpMaxSize (pwPool w) - 1 + int (length (pwThreads w)) \<and>
     0 < gpMaxSize (pwPool w) \<and> gpMaxSize (pwPool w) + int (length (pwThreads w)) \<le> 2 ^ 30 \<and>
     gpCap (pwPool w) = 2 * gpMaxSize (pwPool w) \<and>
     (gpClosed (pwPool w) \<longrightarrow> gpShutdown (pwPool w))"

lemma held_update:
  "t < length (pwThreads w) \<Longrightarrow> held \<lparr>pwPool = p, pwThreads = (pwThreads w)[t := th]\<rparr> =
     held w + (if holds th then 1 else 0) - (if holds (pwThreads w ! t) then 1 else 0)"
  by (simp add: held_def length_filter_update)

lemma dialing_update:
  "t < length (pwThreads w) \<Longrightarrow> dialing \<lparr>pwPool = p, pwThreads = (pwThreads w)[t := th]\<rparr> =
     dialing w + (if th = PDial then 1 else 0) - (if pwThreads w ! t = PDial then 1 else 0)"
  by (simp add: dialing_def length_filter_update)

lemma held_nonneg: "0 \<le> held w" "0 \<le> dialing w" "held w \<le> int (length (pwThreads w))"
    "dialing w \<le> int (length (pwThreads w))"
  by (simp_all add: held_def dialing_def)

lemma held_pos:
  "t < length (pwThreads w) \<Longrightarrow> holds (pwThreads w ! t) \<Longrightarrow> 1 \<le> held w"
  unfolding held_def
  by (metis (mono_tags, lifting) filter_empty_conv le_zero_eq length_0_conv less_one linorder_not_less
      nth_mem of_nat_1 of_nat_le_iff)

lemma dialing_room:
  assumes "t < length (pwThreads w)" "pwThreads w ! t \<noteq> PDial"
  shows "dialing w + 1 \<le> int (length (pwThreads w))"
proof -
  have "length (filter (\<lambda>th. th = PDial) (pwThreads w)) < length (pwThreads w)"
    using assms by (intro length_filter_less [of "pwThreads w ! t"]) simp_all
  then show ?thesis by (simp add: dialing_def)
qed

text \<open>The pool parts an action can leave behind.\<close>

lemma pool_inv_go:
  assumes inv: "pool_inv w" and t: "t < length (pwThreads w)"
    and cnt: "gpCurSize p = int (length (gpChan p)) + held w + (if holds th then 1 else 0)
       - (if holds (pwThreads w ! t) then 1 else 0)"
    and bnd: "gpCurSize p + dialing w + (if th = PDial then 1 else 0) - (if pwThreads w ! t = PDial then 1 else 0)
       \<le> gpMaxSize (pwPool w) - 1 + int (length (pwThreads w))"
    and same: "gpMaxSize p = gpMaxSize (pwPool w)" "gpCap p = gpCap (pwPool w)"
      "gpClosed p \<Longrightarrow> gpShutdown p"
    and go: "go_on t th p w = Some (Ret w')"
  shows "pool_inv w'"
proof -
  from go have w': "w' = \<lparr>pwPool = p, pwThreads = (pwThreads w)[t := th]\<rparr>"
    by (simp add: go_on_def)
  show ?thesis
    using inv cnt bnd same unfolding pool_inv_def w'
    by (simp add: held_update [OF t] dialing_update [OF t])
qed

lemma poll_simps:
  "poll pool = (Conn c, pool') \<longleftrightarrow> (\<exists>cs. gpChan pool = c # cs \<and> pool' = pool\<lparr>gpChan := cs\<rparr>)"
  "poll pool = (Nothing, pool') \<longleftrightarrow> gpChan pool = [] \<and> \<not> gpClosed pool \<and> pool' = pool"
  "poll pool = (NilConn, pool') \<longleftrightarrow> gpChan pool = [] \<and> gpClosed pool \<and> pool' = pool"
  by (auto simp: poll_def split: list.splits if_splits)

lemma create_simps:
  "create connFactory pool = (Inl err, pool') \<Longrightarrow> pool' = pool\<lparr>gpAttempts := Suc (gpAttempts pool)\<rparr>"
  "create connFactory pool = (Inr c, pool') \<Longrightarrow> gpChan pool' = gpChan pool \<and>
     gpCurSize pool' = i32 (gpCurSize pool + 1) \<and> gpMaxSize pool' = gpMaxSize pool \<and>
     gpCap pool' = gpCap pool \<and> gpClosed pool' = gpClosed pool \<and> gpShutdown pool' = gpShutdown pool \<and>
     c = length (gpConns pool)"
  by (auto simp: create_def Let_def split: sum.splits)

lemma vet_simps:
  "vet m now c pool = (Some c', pool') \<Longrightarrow> c' = c \<and> pool' = pool"
  "vet m now c pool = (None, pool') \<Longrightarrow> gpChan pool' = gpChan pool \<and>
     gpCurSize pool' = i32 (gpCurSize pool - 1) \<and> gpMaxSize pool' = gpMaxSize pool \<and>
     gpCap pool' = gpCap pool \<and> gpClosed pool' = gpClosed pool \<and> gpShutdown pool' = gpShutdown pool"
  by (auto simp: vet_def split: if_splits)

lemma pool_inv_range: 
  "pool_inv w \<Longrightarrow> gpCurSize (pwPool w) < 2 ^ 30 \<and> 0 \<le> gpCurSize (pwPool w)"
  using held_nonneg [of w] by (simp add: pool_inv_def)

lemma pool_inv_i32:
  assumes "pool_inv w"
  shows "i32 (gpCurSize (pwPool w) - 1) = gpCurSize (pwPool w) - 1"
    "i32 (gpCurSize (pwPool w) + 1) = gpCurSize (pwPool w) + 1"
  using pool_inv_range [OF assms] by (auto intro!: i32_id)

lemma pool_inv_do:
  assumes inv: "pool_inv w" and d: "pool_do m connFactory w t a = Some (Ret w')"
  shows "pool_inv w'"
proof -
  from d have t: "t < length (pwThreads w)"
    by (auto simp: pool_do.simps Let_def split: if_splits)
  note go = pool_inv_go [OF inv t]
  note b = held_nonneg [of w] held_pos [OF t] dialing_room [OF t] pool_inv_i32 [OF inv]
  from inv have e: "gpCurSize (pwPool w) = int (length (gpChan (pwPool w))) + held w"
    "gpCurSize (pwPool w) + dialing w \<le> gpMaxSize (pwPool w) - 1 + int (length (pwThreads w))"
    "gpClosed (pwPool w) \<Longrightarrow> gpShutdown (pwPool w)" "0 < gpMaxSize (pwPool w)"
    by (simp_all add: pool_inv_def)
  from t have t': "\<not> length (pwThreads w) \<le> t" by simp
  show ?thesis
    using d
    apply (cases "pwThreads w ! t"; cases a)
    apply (simp_all add: pool_do.simps Let_def t' split del: if_split)
    using t b e
    apply (auto simp: poll_simps i32_id split: if_splits prod.splits received.splits sum.splits option.splits
         dest!: create_simps vet_simps elim!: go [rotated -1])
    done
qed

lemma fill_inv:
  assumes "gpCurSize pool = int (length (gpChan pool))" "int (length (gpChan pool)) + int n < 2 ^ 31"
    and "length (gpChan pool) = length (gpConns pool)" "distinct (gpChan pool)"
    and "set (gpChan pool) = {..< length (gpConns pool)}"
  shows "gpCurSize (fill n f pool) = int (length (gpChan (fill n f pool))) \<and>
    length (gpChan (fill n f pool)) \<le> length (gpChan pool) + n \<and>
    distinct (gpChan (fill n f pool)) \<and> set (gpChan (fill n f pool)) = {..< length (gpConns (fill n f pool))} \<and>
    gpMaxSize (fill n f pool) = gpMaxSize pool \<and> gpCap (fill n f pool) = gpCap pool \<and>
    gpClosed (fill n f pool) = gpClosed pool \<and> gpShutdown (fill n f pool) = gpShutdown pool"
  using assms
proof (induction n arbitrary: pool)
  case (Suc n)
  show ?case
  proof (cases "f (gpAttempts pool)")
    case (Inl err)
    with Suc.IH [of "pool\<lparr>gpAttempts := Suc (gpAttempts pool)\<rparr>"] Suc.prems show ?thesis
      by (auto simp: create_def Let_def)
  next
    case (Inr c)
    let ?p = "(add_size 1 (pool\<lparr>gpAttempts := Suc (gpAttempts pool), gpConns := gpConns pool @ [c]\<rparr>))
      \<lparr>gpChan := gpChan pool @ [length (gpConns pool)]\<rparr>"
    have "i32 (gpCurSize pool + 1) = gpCurSize pool + 1"
      using Suc.prems by (intro i32_id) auto
    with Suc.IH [of ?p] Suc.prems Inr show ?thesis
      by (auto simp: create_def Let_def lessThan_Suc)
  qed
qed auto

lemma fill_max: "gpMaxSize (fill n f pool) = gpMaxSize pool"
proof (induction n arbitrary: pool)
  case (Suc n)
  then show ?case
    by (cases "f (gpAttempts pool)") (simp_all add: create_def Let_def)
qed simp

lemma NewGenericPool_inv:
  assumes "NewGenericPool minSize maxSize lifetime f = Ret pool" "0 < gpMaxSize pool" "gpMaxSize pool < 2 ^ 30"
  shows "gpCurSize pool = int (length (gpChan pool)) \<and> int (length (gpChan pool)) \<le> gpMaxSize pool \<and>
    distinct (gpChan pool) \<and> set (gpChan pool) = {..< length (gpConns pool)} \<and>
    gpMaxSize pool = (if maxSize \<le> 0 \<or> minSize > maxSize then minSize else maxSize) \<and>
    gpCap pool = 2 * gpMaxSize pool \<and> \<not> gpClosed pool \<and> \<not> gpShutdown pool"
proof -
  define mx where "mx = (if maxSize \<le> 0 \<or> minSize > maxSize then minSize else maxSize)"
  let ?p0 = "\<lparr>gpChan = [], gpCap = i32 (mx * 2), gpClosed = False, gpMaxSize = mx, gpCurSize = 0,
         gpMinSize = minSize, gpShutdown = False, gpLifetime = lifetime, gpConns = [], gpAttempts = 0\<rparr>"
  from assms(1) have p: "pool = fill (nat minSize) f ?p0"
    by (auto simp: NewGenericPool_def Let_def mx_def split: if_splits)
  have mx: "minSize \<le> mx" by (auto simp: mx_def)
  from p have max: "gpMaxSize pool = mx" by (simp add: fill_max)
  have "int (nat minSize) < 2 ^ 30"
    using max mx assms(2,3) by (cases "0 \<le> minSize") simp_all
  then have "gpCurSize pool = int (length (gpChan pool)) \<and>
      length (gpChan pool) \<le> 0 + nat minSize \<and>
      distinct (gpChan pool) \<and> set (gpChan pool) = {..< length (gpConns pool)} \<and>
      gpMaxSize pool = mx \<and> gpCap pool = i32 (mx * 2) \<and>
      gpClosed pool = False \<and> gpShutdown pool = False"
    using fill_inv [of ?p0 "nat minSize" f] unfolding p by simp
  moreover have "i32 (mx * 2) = 2 * mx"
    using max assms(2,3) by (subst i32_id) auto
  moreover from mx max assms(2) have "int (nat minSize) \<le> mx" by simp
  ultimately show ?thesis
    unfolding mx_def [symmetric] by (simp split: if_splits)
qed

lemma pool_inv_start: "pool_start f w \<Longrightarrow> pool_inv w"
  unfolding pool_start_def
  by (elim exE conjE, drule NewGenericPool_inv)
     (auto simp: pool_inv_def held_def dialing_def)

interpretation pool: invariant_system "pool_start f" "pool_step m f" pool_inv
  for f :: "'c conn_factory" and m :: "'c poolable"
  by unfold_locales (auto simp: pool_step_def pool_inv_start intro: pool_inv_do)

lemma pool_run_reaches:
  "pool_run m f w acts = Some (Ret w') \<Longrightarrow> reaches (pool_start f) (pool_step m f) w \<Longrightarrow>
     reaches (pool_start f) (pool_step m f) w'"
proof (induction acts arbitrary: w)
  case (Cons ta acts)
  then show ?case
    by (cases ta) (auto split: option.splits outcome.splits intro: reaches_step pool_step_intro)
qed simp

section \<open>Properties\<close>

text \<open>
  C14: \<open>Acquire\<close> returns the first usable resource of the queue, unchanged. The closed and the
  expired ones before it leave the pool for good, each with one decrement of the size.
\<close>

theorem acquire_first_usable:
  assumes "\<not> gpShutdown pool" "gpChan pool = dead @ c # rest" "distinct (gpChan pool)"
    "\<forall>d \<in> set dead. \<not> usable m now pool d" "usable m now pool c" "length dead < fuel"
    "in_i32 (gpCurSize pool)"
  shows "\<exists>pool'. Acquire fuel m connFactory now arrivals pool = Some (Ret (Inr c), pool') \<and>
    gpChan pool' = rest \<and> gpCurSize pool' = i32 (gpCurSize pool - int (length dead)) \<and>
    gpConns pool' ! c = gpConns pool ! c \<and> gpAttempts pool' = gpAttempts pool"
proof -
  from assms(6) obtain n where fuel: "fuel = length dead + Suc n"
    by (metis add_Suc_right less_iff_Suc_add)
  obtain pool1 where p1:
    "acquire_loop fuel m connFactory now arrivals pool = acquire_loop (Suc n) m connFactory now arrivals pool1"
    "gpChan pool1 = c # rest" "gpCurSize pool1 = i32 (gpCurSize pool - int (length dead))"
    "\<not> gpShutdown pool1" "gpLifetime pool1 = gpLifetime pool" "gpAttempts pool1 = gpAttempts pool"
    "gpConns pool1 ! c = gpConns pool ! c"
    using acquire_skips_dead [OF assms(1,2,3,4), of "Suc n" connFactory arrivals] assms(2,3,7) fuel
    by (auto simp: i32_id split: if_splits)
  then have "usable m now (pool1\<lparr>gpChan := rest\<rparr>) c"
    using assms(5) by (simp add: usable_def)
  from vet_usable [OF this] p1 assms(1) show ?thesis
    by (simp add: Acquire_def getOrCreate_def poll_def)
qed

text \<open>
  When no queued resource is usable and the pool has lost some of them, \<open>Acquire\<close> makes a new
  one with the factory, whose error it passes on.
\<close>

theorem acquire_creates:
  assumes "\<not> gpShutdown pool" "\<not> gpClosed pool" "distinct (gpChan pool)"
    "\<forall>d \<in> set (gpChan pool). \<not> usable m now pool d" "length (gpChan pool) < fuel"
    "0 \<le> gpCurSize pool - int (length (gpChan pool))" "in_i32 (gpCurSize pool)"
    "gpCurSize pool - int (length (gpChan pool)) < gpMaxSize pool"
    "\<And>c. connFactory (gpAttempts pool) = Inr c \<Longrightarrow>
       \<not> pIsClose m c \<and> now \<le> pActiveTime m c + gpLifetime pool"
  shows "\<exists>pool'. Acquire fuel m connFactory now arrivals pool =
      Some (Ret (case connFactory (gpAttempts pool) of Inl err \<Rightarrow> Inl err
                 | Inr c \<Rightarrow> Inr (length (gpConns pool))), pool') \<and>
    gpChan pool' = [] \<and> gpAttempts pool' = Suc (gpAttempts pool)"
proof -
  let ?dead = "gpChan pool"
  from assms(5) obtain n where fuel: "fuel = length ?dead + Suc n"
    by (metis add_Suc_right less_iff_Suc_add)
  have "i32 (gpCurSize pool - int (length ?dead)) = gpCurSize pool - int (length ?dead)"
    using assms(6,7) by (intro i32_id) auto
  then obtain pool1 where p1:
    "acquire_loop fuel m connFactory now arrivals pool = acquire_loop (Suc n) m connFactory now arrivals pool1"
    "gpChan pool1 = []" "gpCurSize pool1 = gpCurSize pool - int (length ?dead)"
    "\<not> gpShutdown pool1" "\<not> gpClosed pool1" "gpLifetime pool1 = gpLifetime pool"
    "gpAttempts pool1 = gpAttempts pool" "gpMaxSize pool1 = gpMaxSize pool"
    "length (gpConns pool1) = length (gpConns pool)"
    using acquire_skips_dead [OF assms(1) _ assms(3,4), of "[]" "Suc n" connFactory arrivals] assms(2) fuel
    by (auto split: if_splits)
  show ?thesis
  proof (cases "connFactory (gpAttempts pool)")
    case (Inl err)
    with p1 assms(1,8) show ?thesis
      by (simp add: Acquire_def getOrCreate_def poll_def create_def Let_def)
  next
    case (Inr c)
    let ?p2 = "add_size 1 (pool1\<lparr>gpAttempts := Suc (gpAttempts pool), gpConns := gpConns pool1 @ [c]\<rparr>)"
    have "usable m now ?p2 (length (gpConns pool))"
      using assms(9) [OF Inr] p1 by (simp add: usable_def nth_append)
    from vet_usable [OF this] Inr p1 assms(1,8) show ?thesis
      by (simp add: Acquire_def getOrCreate_def poll_def create_def Let_def)
  qed
qed


text \<open>C22: as long as the pool is not shut down, no use of it panics.\<close>

theorem open_pool_never_panics:
  assumes "reaches (pool_start f) (pool_step m f) w" "\<not> gpShutdown (pwPool w)"
  shows "pool_do m f w t a \<noteq> Some (Panic e)"
proof -
  from pool.reaches_inv [OF assms(1)] assms(2) have "\<not> gpClosed (pwPool w)"
    by (auto simp: pool_inv_def)
  then show ?thesis
    by (cases "pwThreads w ! t"; cases a)
       (auto simp: pool_do.simps Let_def go_on_def poll_simps split: if_splits prod.splits received.splits sum.splits option.splits)
qed

section \<open>Acquire returns\<close>

text \<open>A factory whose connections can be used at once.\<close>

definition fresh_factory :: "'c poolable \<Rightarrow> int \<Rightarrow> int \<Rightarrow> 'c conn_factory \<Rightarrow> bool" where
  "fresh_factory m now lifetime f \<longleftrightarrow>
     (\<forall>n c. f n = Inr c \<longrightarrow> \<not> pIsClose m c \<and> \<not> (lifetime > 0 \<and> pActiveTime m c + lifetime < now))"

lemma vet_smaller:
  assumes "vet m now c pool = (None, pool')"
  shows "gpCurSize pool' = i32 (gpCurSize pool - 1)" "gpChan pool' = gpChan pool" "gpMaxSize pool' = gpMaxSize pool"
    "gpLifetime pool' = gpLifetime pool"
  using assms by (auto simp: vet_def split: if_splits)


lemma acquire_loop_maxSize:
  "acquire_loop n m f now arrivals pool = Some (r, pool') \<Longrightarrow> gpMaxSize pool' = gpMaxSize pool"
proof (induction n arbitrary: pool)
  case (Suc n)
  obtain g p1 where g: "getOrCreate f (arrivals n) pool = (g, p1)" by fastforce
  then have p1: "gpMaxSize p1 = gpMaxSize pool"
    by (auto simp: getOrCreate_def poll_def create_def Let_def split: if_splits list.splits received.splits sum.splits prod.splits)
  show ?case
  proof (cases g)
    case (Inr c)
    show ?thesis
    proof (cases c)
      case (Conn x)
      obtain v p2 where v: "vet m now x p1 = (v, p2)" by fastforce
      then have "gpMaxSize p2 = gpMaxSize p1" by (auto simp: vet_def split: if_splits)
      with Suc g Inr Conn v p1 show ?thesis by (cases v) auto
    qed (use Suc.prems g Inr p1 in auto)
  qed (use Suc.prems g p1 in auto)
qed simp

lemma Acquire_maxSize:
  "Acquire n m f now arrivals pool = Some (r, pool') \<Longrightarrow> gpMaxSize pool' = gpMaxSize pool"
  by (auto simp: Acquire_def acquire_loop_maxSize split: if_splits)

lemma Release_maxSize: "Release c pool = Some (r, pool') \<Longrightarrow> gpMaxSize pool' = gpMaxSize pool"
  by (auto simp: Release_def split: if_splits)

end
