(* ===== verification/Easy_Connection.thy ===== *)
theory Easy_Connection
  imports Generic_Pool Easy_Package
begin

text \<open>
  The connection object (\<open>easy_connection.go\<close>): its methods, its role as a \<open>Poolable\<close>, and the
  goroutines around its write channel. These are the senders (pool workers and callers that run
  \<open>Send\<close>), the writer \<open>Write\<close>, the reader with the deferred clean-up of \<open>Read\<close>, and, on the client
  side, \<open>Connect\<close>, which starts reader and writer before it clears \<open>isClose\<close>. What the reader
  does with the bytes is in \<open>Easy_Reader\<close>.
\<close>

section \<open>The connection\<close>

definition EASYCALL_WRITE_QUEUE_SIZE :: nat where "EASYCALL_WRITE_QUEUE_SIZE = 100"

record easy_connection =
  ecDialed :: bool                    \<comment> \<open>\<open>conn != nil\<close>\<close>
  ecTcpOpen :: bool                   \<comment> \<open>the socket has not been closed\<close>
  ecIsClose :: bool
  ecHasChan :: bool                   \<comment> \<open>\<open>writeChan != nil\<close>\<close>
  ecQueue :: "byte list option list"  \<comment> \<open>\<open>writeChan\<close>; \<open>None\<close> is nil\<close>
  ecChanClosed :: bool
  ecActiveTime :: int
  ecWritten :: "byte list list"       \<comment> \<open>what \<open>Write\<close> put on the socket\<close>

text \<open>The literal of the client's factory, and the one of \<open>Server.CreateServer\<close>.\<close>

definition client_connection :: "int \<Rightarrow> easy_connection" where
  "client_connection now =
     \<lparr>ecDialed = False, ecTcpOpen = False, ecIsClose = True, ecHasChan = False, ecQueue = [],
      ecChanClosed = False, ecActiveTime = now, ecWritten = []\<rparr>"

definition server_connection :: "int \<Rightarrow> easy_connection" where
  "server_connection now =
     \<lparr>ecDialed = True, ecTcpOpen = True, ecIsClose = False, ecHasChan = True, ecQueue = [],
      ecChanClosed = False, ecActiveTime = now, ecWritten = []\<rparr>"

definition CloseConn :: "easy_connection \<Rightarrow> easy_connection" where
  "CloseConn ec = (if \<not> ecIsClose ec then ec\<lparr>ecIsClose := True, ecTcpOpen := False\<rparr> else ec)"

definition IsClose :: "easy_connection \<Rightarrow> bool" where
  "IsClose ec = ecIsClose ec"

definition GetActiveTime :: "easy_connection \<Rightarrow> int" where
  "GetActiveTime ec = ecActiveTime ec"

text \<open>
  \<open>Connect\<close>: \<open>dialed\<close> is the outcome of \<open>net.DialTimeout\<close>. The first part ends where the two
  goroutines have been started; the second is the last assignment.
\<close>

definition Connect_start :: "go_error option \<Rightarrow> int \<Rightarrow> easy_connection \<Rightarrow> go_error + easy_connection" where
  "Connect_start dialed now ec =
     (case dialed of Some err \<Rightarrow> Inl err
      | None \<Rightarrow> Inr (ec\<lparr>ecDialed := True, ecTcpOpen := True, ecActiveTime := now, ecHasChan := True,
                        ecQueue := [], ecChanClosed := False\<rparr>))"

definition Connect_end :: "easy_connection \<Rightarrow> easy_connection" where
  "Connect_end ec = ec\<lparr>ecIsClose := False\<rparr>"

definition Connect :: "go_error option \<Rightarrow> int \<Rightarrow> easy_connection \<Rightarrow> go_error + easy_connection" where
  "Connect dialed now ec =
     (case Connect_start dialed now ec of Inl err \<Rightarrow> Inl err | Inr ec \<Rightarrow> Inr (Connect_end ec))"

definition EasyConnection :: "easy_connection poolable" where
  "EasyConnection = \<lparr>pIsClose = IsClose, pActiveTime = GetActiveTime, pClose = CloseConn\<rparr>"

interpretation conn: poolable_contract EasyConnection
  by unfold_locales (simp add: EasyConnection_def IsClose_def CloseConn_def)

section \<open>The goroutines of a connection\<close>

text \<open>The packages among the values of the channel, on which nil tells the writer to stop.\<close>

fun somes :: "'a option list \<Rightarrow> 'a list" where
  "somes [] = []"
| "somes (None # xs) = somes xs"
| "somes (Some x # xs) = x # somes xs"

lemma somes_append [simp]: "somes (xs @ ys) = somes xs @ somes ys"
  by (induction xs rule: somes.induct) simp_all

datatype sender = SIdle | SPut "byte list option"
datatype reader = RRunning | RClosed | RSent | RDone
datatype writer = WRunning | WExit
datatype dialer = DPending | DDone

record conn_world =
  cwConn :: easy_connection
  cwSenders :: "sender list"
  cwReader :: reader
  cwWriter :: writer
  cwDialer :: dialer
  cwAccepted :: "byte list list"      \<comment> \<open>the packages (not nil) put on \<open>writeChan\<close>, in order\<close>

datatype conn_action =
    SendStart nat "byte list option"  \<comment> \<open>a sender runs the tests of \<open>Send\<close>; \<open>None\<close> is a nil slice\<close>
  | SendPut nat                \<comment> \<open>its send on \<open>writeChan\<close>\<close>
  | WriteStep bool             \<comment> \<open>one round of \<open>Write\<close>; whether \<open>conn.Write\<close> succeeds\<close>
  | ReadEnd                    \<comment> \<open>\<open>Read\<close> leaves its loop; \<open>ec.Close()\<close>\<close>
  | ReadNil                    \<comment> \<open>\<open>ec.writeChan <- nil\<close>\<close>
  | ReadClose                  \<comment> \<open>\<open>close(ec.writeChan)\<close>\<close>
  | DialEnd                    \<comment> \<open>\<open>ec.isClose = false\<close> at the end of \<open>Connect\<close>\<close>
  | PoolClose                  \<comment> \<open>the pool closes the connection\<close>

fun conn_do :: "conn_world \<Rightarrow> conn_action \<Rightarrow> conn_world outcome option" where
  "conn_do w (SendStart i pkg) =
     (if i < length (cwSenders w) \<and> cwSenders w ! i = SIdle then
        (if ecIsClose (cwConn w) \<or> \<not> ecHasChan (cwConn w) then Some (Ret w)
         else Some (Ret (w\<lparr>cwSenders := (cwSenders w)[i := SPut pkg]\<rparr>)))
      else None)"
| "conn_do w (SendPut i) =
     (if i < length (cwSenders w) then
        (case cwSenders w ! i of
           SIdle \<Rightarrow> None
         | SPut pkg \<Rightarrow>
             (if ecChanClosed (cwConn w) then Some (Panic ClosedChannel)
              else if length (ecQueue (cwConn w)) < EASYCALL_WRITE_QUEUE_SIZE then
                Some (Ret (w\<lparr>cwSenders := (cwSenders w)[i := SIdle],
                  cwConn := (cwConn w)\<lparr>ecQueue := ecQueue (cwConn w) @ [pkg]\<rparr>,
                  cwAccepted := cwAccepted w @ somes [pkg]\<rparr>))
              else None))
      else None)"
| "conn_do w (WriteStep ok) =
     (if cwWriter w = WRunning then
        (case ecQueue (cwConn w) of
           [] \<Rightarrow> if ecChanClosed (cwConn w) then Some (Ret (w\<lparr>cwWriter := WExit\<rparr>)) else None
         | None # q \<Rightarrow> Some (Ret (w\<lparr>cwWriter := WExit, cwConn := (cwConn w)\<lparr>ecQueue := q\<rparr>\<rparr>))
         | Some pkg # q \<Rightarrow>
             (if ok then Some (Ret (w\<lparr>cwConn := (cwConn w)\<lparr>ecQueue := q,
                              ecWritten := ecWritten (cwConn w) @ [pkg]\<rparr>\<rparr>))
              else Some (Ret (w\<lparr>cwWriter := WExit, cwConn := (cwConn w)\<lparr>ecQueue := q\<rparr>\<rparr>))))
      else None)"
| "conn_do w ReadEnd =
     (if cwReader w = RRunning then Some (Ret (w\<lparr>cwReader := RClosed, cwConn := CloseConn (cwConn w)\<rparr>))
      else None)"
| "conn_do w ReadNil =
     (if cwReader w \<noteq> RClosed then None
      else if ecChanClosed (cwConn w) then Some (Panic ClosedChannel)
      else if length (ecQueue (cwConn w)) < EASYCALL_WRITE_QUEUE_SIZE then
        Some (Ret (w\<lparr>cwReader := RSent, cwConn := (cwConn w)\<lparr>ecQueue := ecQueue (cwConn w) @ [None]\<rparr>\<rparr>))
      else None)"
| "conn_do w ReadClose =
     (if cwReader w \<noteq> RSent then None
      else if ecChanClosed (cwConn w) then Some (Panic ClosedChannel)
      else Some (Ret (w\<lparr>cwReader := RDone, cwConn := (cwConn w)\<lparr>ecChanClosed := True\<rparr>\<rparr>)))"
| "conn_do w DialEnd =
     (if cwDialer w = DPending
      then Some (Ret (w\<lparr>cwDialer := DDone, cwConn := Connect_end (cwConn w)\<rparr>)) else None)"
| "conn_do w PoolClose = Some (Ret (w\<lparr>cwConn := CloseConn (cwConn w)\<rparr>))"

definition conn_step :: "conn_world \<Rightarrow> conn_world \<Rightarrow> bool" where
  "conn_step w w' \<longleftrightarrow> (\<exists>a. conn_do w a = Some (Ret w'))"

fun conn_run :: "conn_world \<Rightarrow> conn_action list \<Rightarrow> conn_world outcome option" where
  "conn_run w [] = Some (Ret w)"
| "conn_run w (a # acts) =
     (case conn_do w a of Some (Ret w') \<Rightarrow> conn_run w' acts | r \<Rightarrow> r)"

text \<open>A server connection, and a client connection whose \<open>Connect\<close> has started the goroutines.\<close>

definition server_world :: "nat \<Rightarrow> int \<Rightarrow> conn_world" where
  "server_world n now =
     \<lparr>cwConn = server_connection now, cwSenders = replicate n SIdle, cwReader = RRunning,
      cwWriter = WRunning, cwDialer = DDone, cwAccepted = []\<rparr>"

definition client_world :: "nat \<Rightarrow> int \<Rightarrow> conn_world" where
  "client_world n now =
     \<lparr>cwConn = projr (Connect_start None now (client_connection now)), cwSenders = replicate n SIdle,
      cwReader = RRunning, cwWriter = WRunning, cwDialer = DPending, cwAccepted = []\<rparr>"

definition conn_start :: "conn_world \<Rightarrow> bool" where
  "conn_start w \<longleftrightarrow> (\<exists>n now. w = server_world n now \<or> w = client_world n now)"

section \<open>First in, first out\<close>

definition conn_inv :: "conn_world \<Rightarrow> bool" where
  "conn_inv w \<longleftrightarrow>
     (\<exists>lost. cwAccepted w = ecWritten (cwConn w) @ lost @ somes (ecQueue (cwConn w)) \<and>
        (cwWriter w = WRunning \<longrightarrow> lost = [])) \<and>
     length (ecQueue (cwConn w)) \<le> EASYCALL_WRITE_QUEUE_SIZE \<and>
     (ecChanClosed (cwConn w) \<longleftrightarrow> cwReader w = RDone)"

lemma CloseConn_simps [simp]:
  "ecQueue (CloseConn ec) = ecQueue ec" "ecWritten (CloseConn ec) = ecWritten ec"
  "ecChanClosed (CloseConn ec) = ecChanClosed ec" "ecIsClose (CloseConn ec)"
  "ecHasChan (CloseConn ec) = ecHasChan ec"
  by (auto simp: CloseConn_def)

lemma Connect_end_simps [simp]:
  "ecQueue (Connect_end ec) = ecQueue ec" "ecWritten (Connect_end ec) = ecWritten ec"
  "ecChanClosed (Connect_end ec) = ecChanClosed ec" "\<not> ecIsClose (Connect_end ec)"
  "ecHasChan (Connect_end ec) = ecHasChan ec"
  by (simp_all add: Connect_end_def)

lemma conn_inv_start: "conn_start w \<Longrightarrow> conn_inv w"
  by (auto simp: conn_start_def server_world_def client_world_def server_connection_def
      client_connection_def Connect_start_def conn_inv_def)

lemma conn_inv_do: "conn_inv w \<Longrightarrow> conn_do w a = Some (Ret w') \<Longrightarrow> conn_inv w'"
  by (cases a)
     (auto simp: conn_inv_def split: if_splits sender.splits list.splits option.splits)

interpretation conn_sys: invariant_system conn_start conn_step conn_inv
  by unfold_locales (auto simp: conn_step_def conn_inv_start intro: conn_inv_do)

text \<open>A server connection's \<open>isClose\<close> is set before its channel is closed, and stays set.\<close>

definition server_start :: "conn_world \<Rightarrow> bool" where
  "server_start w \<longleftrightarrow> (\<exists>n now. w = server_world n now)"

definition server_inv :: "conn_world \<Rightarrow> bool" where
  "server_inv w \<longleftrightarrow> conn_inv w \<and> cwDialer w = DDone \<and> (cwReader w \<noteq> RRunning \<longrightarrow> ecIsClose (cwConn w))"

lemma server_inv_do: "server_inv w \<Longrightarrow> conn_do w a = Some (Ret w') \<Longrightarrow> server_inv w'"
  unfolding server_inv_def
  by (rule conjI [OF conn_inv_do], simp_all, cases a)
     (auto split: if_splits sender.splits list.splits option.splits)

lemma server_inv_start: "server_start w \<Longrightarrow> server_inv w"
  using conn_inv_start [of w]
  by (auto simp: server_start_def server_inv_def conn_start_def server_world_def)

interpretation server_sys: invariant_system server_start conn_step server_inv
  by unfold_locales
     (auto simp: conn_step_def server_inv_start intro: server_inv_do)

section \<open>Properties\<close>

text \<open>The pool \<open>NewGenericPool(0, 1, 0, f)\<close> returns.\<close>

definition empty_pool :: "easy_connection generic_pool" where
  "empty_pool = \<lparr>gpChan = [], gpCap = 2, gpClosed = False, gpMaxSize = 1, gpCurSize = 0, gpMinSize = 0,
     gpShutdown = False, gpLifetime = 0, gpConns = [], gpAttempts = 0\<rparr>"

text \<open>
  C10: the packages on the socket are a prefix of those accepted by the write channel, in the
  order of acceptance, nothing twice; as long as \<open>Write\<close> runs nothing is lost: what has been
  accepted is on the socket or still in the queue, which never holds more than 100 packages.
\<close>

theorem writes_are_fifo:
  assumes "reaches conn_start conn_step w"
  shows "(\<exists>rest. cwAccepted w = ecWritten (cwConn w) @ rest) \<and>
    (cwWriter w = WRunning \<longrightarrow> cwAccepted w = ecWritten (cwConn w) @ somes (ecQueue (cwConn w))) \<and>
    length (ecQueue (cwConn w)) \<le> 100"
  using conn_sys.reaches_inv [OF assms]
  by (auto simp: conn_inv_def EASYCALL_WRITE_QUEUE_SIZE_def)


text \<open>
  \<open>Send\<close> is not synchronised with the clean-up of \<open>Read\<close>. A sender that has seen the
  connection open can find its channel closed, and panics.
\<close>

theorem send_close_race_panics:
  "conn_run (server_world 1 now) [SendStart 0 pkg, ReadEnd, ReadNil, ReadClose, SendPut 0] =
     Some (Panic ClosedChannel)"
  by (simp add: server_world_def server_connection_def EASYCALL_WRITE_QUEUE_SIZE_def)

text \<open>
  \<open>Connect\<close> starts the reader before it sets \<open>isClose = false\<close>. When the peer closes at
  once, the reader's \<open>Close\<close> does nothing, and \<open>Connect\<close> then returns a connection that is open
  for the pool although its channel is closed: its socket is never closed, every \<open>Send\<close> on it
  panics, and \<open>Acquire\<close> goes on to return it.
\<close>

theorem connect_race_revives_dead_connection:
  "\<exists>w. conn_run (client_world 1 now) [ReadEnd, ReadNil, ReadClose, DialEnd] = Some (Ret w) \<and>
     \<not> IsClose (cwConn w) \<and> ecTcpOpen (cwConn w) \<and> ecChanClosed (cwConn w) \<and>
     conn_run w [SendStart 0 pkg, SendPut 0] = Some (Panic ClosedChannel) \<and>
     fst (vet EasyConnection now' 0 (empty_pool\<lparr>gpConns := [cwConn w]\<rparr>)) = Some 0"
  by (simp add: client_world_def client_connection_def Connect_start_def EASYCALL_WRITE_QUEUE_SIZE_def
      CloseConn_def Connect_end_def IsClose_def vet_def EasyConnection_def empty_pool_def)

text \<open>
  Once \<open>Write\<close> has returned after a failed write, nobody reads the channel. When it is full
  before the reader ends, the reader's clean-up and every sender block for ever.
\<close>

theorem dead_writer_blocks_cleanup:
  assumes "conn_step\<^sup>*\<^sup>* w w'" "cwWriter w = WExit" "\<not> ecChanClosed (cwConn w)"
    and "length (ecQueue (cwConn w)) = 100" "cwReader w \<in> {RRunning, RClosed}"
  shows "cwReader w' \<in> {RRunning, RClosed} \<and> conn_do w' ReadNil = None \<and> conn_do w' (SendPut i) = None"
proof -
  from assms have "cwWriter w' = WExit \<and> \<not> ecChanClosed (cwConn w') \<and>
      length (ecQueue (cwConn w')) = 100 \<and> cwReader w' \<in> {RRunning, RClosed}"
  proof (induction rule: rtranclp_induct)
    case (step v v')
    from step.hyps(2) obtain a where "conn_do v a = Some (Ret v')"
      by (auto simp: conn_step_def)
    with step.IH step.prems show ?case
      by (cases a) (auto simp: EASYCALL_WRITE_QUEUE_SIZE_def split: if_splits sender.splits)
  qed simp
  then show ?thesis
    by (auto simp: EASYCALL_WRITE_QUEUE_SIZE_def split: sender.splits)
qed

text \<open>A writer that has returned writes nothing any more, whatever is accepted later.\<close>

lemma stopped_writer:
  assumes "conn_step\<^sup>*\<^sup>* w w'" "cwWriter w = WExit"
  shows "cwWriter w' = WExit \<and> ecWritten (cwConn w') = ecWritten (cwConn w)"
  using assms
proof (induction rule: rtranclp_induct)
  case (step v v')
  from step.hyps(2) obtain a where "conn_do v a = Some (Ret v')"
    by (auto simp: conn_step_def)
  with step.IH step.prems show ?case
    by (cases a) (auto split: if_splits sender.splits)
qed simp

text \<open>
  \<open>getOrCreate\<close> reads \<open>curSize\<close> and dials later. Two goroutines that find a pool of maximal
  size one empty both get past the check, and the pool ends with two connections.
\<close>

theorem pool_check_race:
  "\<exists>w. NewGenericPool 0 1 0 (\<lambda>_. Inr (server_connection 0)) = Ret empty_pool \<and>
     pool_run EasyConnection (\<lambda>_. Inr (server_connection 0)) \<lparr>pwPool = empty_pool, pwThreads = [PIdle, PIdle]\<rparr>
       [(0, AcqStart), (1, AcqStart), (0, Poll), (1, Poll), (0, Check), (1, Check), (0, Dial), (1, Dial),
        (0, Vet 0), (1, Vet 0)] = Some (Ret w) \<and>
     pwThreads w = [PHold 0, PHold 1] \<and> gpCurSize (pwPool w) = 2 \<and> gpMaxSize (pwPool w) = 1"
  by (simp add: NewGenericPool_def empty_pool_def i32_def pool_do.simps go_on_def poll_def create_def
      add_size_def vet_def EasyConnection_def IsClose_def server_connection_def)

text \<open>
  A goroutine that waits in \<open>getOrCreate\<close> when the pool is shut down receives the nil of the
  closed channel and panics on it; so does one that passed the test of \<open>Release\<close>.
\<close>

theorem shutdown_race_panics:
  assumes "gpChan pool = []" "\<not> gpClosed pool" "\<not> gpShutdown pool" "gpMaxSize pool \<le> gpCurSize pool"
  shows "pool_run m dial \<lparr>pwPool = pool, pwThreads = [PIdle, PIdle]\<rparr>
      [(0, AcqStart), (0, Poll), (0, Check), (1, ShutStart), (1, ShutClose), (0, Recv)] = Some (Panic NilDeref) \<and>
    pool_run m dial \<lparr>pwPool = pool, pwThreads = [PHold c, PIdle]\<rparr>
      [(0, RelStart), (1, ShutStart), (1, ShutClose), (0, Put)] = Some (Panic ClosedChannel)"
  using assms by (simp add: pool_do.simps go_on_def poll_def)

text \<open>
  \<open>Shutdown\<close> closes every queued connection, empties the pool, and ends its use: later calls
  of \<open>Acquire\<close> and \<open>Release\<close> return the error.
\<close>

theorem shutdown_closes_all:
  assumes "\<not> gpShutdown pool" "\<not> gpClosed pool" "in_i32 (gpCurSize pool)"
    "\<forall>c \<in> set (gpChan pool). c < length (gpConns pool)"
  shows "\<exists>pool'. Shutdown EasyConnection pool = Ret (None, pool') \<and> IsShutDown pool' \<and> gpChan pool' = [] \<and>
    gpCurSize pool' = i32 (gpCurSize pool - int (length (gpChan pool))) \<and>
    (\<forall>c \<in> set (gpChan pool). IsClose (gpConns pool' ! c)) \<and>
    Acquire fuel EasyConnection dial now arrivals pool' = Some (Ret (Inl ''pool have been shutdown''), pool') \<and>
    Release r pool' = Some (Ret (Some ''pool have benn shutdown''), pool')"
  using conn.Shutdown_closes [OF assms, of fuel dial now arrivals r]
  by (simp add: EasyConnection_def)

section \<open>Witnesses\<close>

definition sample_factory :: "easy_connection conn_factory" where
  "sample_factory = (\<lambda>_. Inr (server_connection 0))"

text \<open>Two goroutines on a pool of maximal size one, after both have dialled.\<close>

definition crowded_acts :: "(nat \<times> pool_action) list" where
  "crowded_acts = [(0, AcqStart), (1, AcqStart), (0, Poll), (1, Poll), (0, Check), (1, Check),
     (0, Dial), (1, Dial), (0, Vet 0), (1, Vet 0), (0, RelStart)]"

definition crowded_world :: "easy_connection pool_world" where
  "crowded_world = (case pool_run EasyConnection sample_factory
      \<lparr>pwPool = empty_pool, pwThreads = [PIdle, PIdle]\<rparr> crowded_acts of
      Some (Ret w) \<Rightarrow> w | _ \<Rightarrow> \<lparr>pwPool = empty_pool, pwThreads = []\<rparr>)"

lemma crowded_world_val:
  "pool_run EasyConnection sample_factory \<lparr>pwPool = empty_pool, pwThreads = [PIdle, PIdle]\<rparr> crowded_acts =
     Some (Ret crowded_world)"
  "pwThreads crowded_world = [PReleasing 0, PHold 1]" "gpMaxSize (pwPool crowded_world) = 1"
  "\<not> gpShutdown (pwPool crowded_world)" "gpCurSize (pwPool crowded_world) = 2"
  by (simp_all add: crowded_world_def crowded_acts_def sample_factory_def empty_pool_def i32_def pool_do.simps
      go_on_def poll_def create_def add_size_def vet_def EasyConnection_def IsClose_def server_connection_def)

lemma crowded_reaches:
  "reaches (pool_start sample_factory) (pool_step EasyConnection sample_factory) crowded_world"
proof (rule pool_run_reaches [OF crowded_world_val(1) reaches_init])
  have "NewGenericPool 0 1 0 sample_factory = Ret empty_pool"
    by (simp add: NewGenericPool_def empty_pool_def i32_def)
  then show "pool_start sample_factory \<lparr>pwPool = empty_pool, pwThreads = [PIdle, PIdle]\<rparr>"
    unfolding pool_start_def
    by (intro exI [of _ 0] exI [of _ 1]) (auto simp: empty_pool_def intro!: exI [of _ "Suc 0"])
qed


lemma open_pool_never_panics_witness:
  "pool_do EasyConnection sample_factory crowded_world 0 Put \<noteq> Some (Panic ClosedChannel)"
  by (rule open_pool_never_panics [OF crowded_reaches crowded_world_val(4)])

text \<open>A pool with a closed connection in front of an open one.\<close>

definition mixed_pool :: "easy_connection generic_pool" where
  "mixed_pool = empty_pool\<lparr>gpChan := [0, 1], gpMaxSize := 3, gpCap := 6, gpCurSize := 2,
     gpConns := [client_connection 0, server_connection 0]\<rparr>"

lemma acquire_first_usable_witness:
  "\<exists>pool'. Acquire 2 EasyConnection sample_factory 0 (\<lambda>_. Nothing) mixed_pool = Some (Ret (Inr 1), pool') \<and>
    gpChan pool' = [] \<and> gpCurSize pool' = 1"
  using acquire_first_usable [of mixed_pool "[0]" 1 "[]" EasyConnection 0 2 sample_factory "\<lambda>_. Nothing"]
  by (auto simp: mixed_pool_def empty_pool_def usable_def EasyConnection_def IsClose_def
      client_connection_def server_connection_def i32_def)

lemma acquire_creates_witness:
  "\<exists>pool'. Acquire 2 EasyConnection sample_factory 0 (\<lambda>_. Nothing) (mixed_pool\<lparr>gpChan := [0]\<rparr>) =
     Some (Ret (Inr 2), pool') \<and> gpChan pool' = []"
  using acquire_creates [of "mixed_pool\<lparr>gpChan := [0]\<rparr>" EasyConnection 0 2 sample_factory "\<lambda>_. Nothing"]
  by (auto simp: mixed_pool_def empty_pool_def usable_def EasyConnection_def IsClose_def GetActiveTime_def
      client_connection_def server_connection_def sample_factory_def)

lemma shutdown_closes_all_witness:
  "\<exists>pool'. Shutdown EasyConnection mixed_pool = Ret (None, pool') \<and> gpCurSize pool' = 0 \<and>
    IsClose (gpConns pool' ! 0) \<and> IsClose (gpConns pool' ! 1)"
  using shutdown_closes_all [of mixed_pool 1 sample_factory 0 "\<lambda>_. Nothing" 0]
  by (auto simp: mixed_pool_def empty_pool_def i32_def)

lemma shutdown_race_panics_witness:
  "pool_run EasyConnection sample_factory \<lparr>pwPool = empty_pool\<lparr>gpCurSize := 1\<rparr>, pwThreads = [PHold 0, PIdle]\<rparr>
     [(0, RelStart), (1, ShutStart), (1, ShutClose), (0, Put)] = Some (Panic ClosedChannel)"
  using shutdown_race_panics [of "empty_pool\<lparr>gpCurSize := 1\<rparr>" EasyConnection sample_factory 0]
  by (simp add: empty_pool_def)

text \<open>Two packages accepted and one of them written.\<close>

definition written_world :: conn_world where
  "written_world = (case conn_run (server_world 1 0)
     [SendStart 0 (Some [1]), SendPut 0, SendStart 0 (Some [2]), SendPut 0, WriteStep True] of
     Some (Ret w) \<Rightarrow> w | _ \<Rightarrow> server_world 0 0)"

lemma conn_step_intro: "conn_do w a = Some (Ret w') \<Longrightarrow> conn_step w w'"
  unfolding conn_step_def by blast

lemma conn_run_reaches:
  "conn_run w acts = Some (Ret w') \<Longrightarrow> reaches P conn_step w \<Longrightarrow> reaches P conn_step w'"
proof (induction acts arbitrary: w)
  case (Cons a acts)
  then show ?case
    by (auto split: option.splits outcome.splits intro: reaches_step conn_step_intro simp del: conn_do.simps)
qed simp

lemma written_reaches: "reaches server_start conn_step written_world" "reaches conn_start conn_step written_world"
proof -
  have r: "conn_run (server_world 1 0) [SendStart 0 (Some [1]), SendPut 0, SendStart 0 (Some [2]), SendPut 0, WriteStep True] =
      Some (Ret written_world)"
    by (simp add: written_world_def server_world_def server_connection_def EASYCALL_WRITE_QUEUE_SIZE_def)
  show "reaches server_start conn_step written_world" "reaches conn_start conn_step written_world"
    by (rule conn_run_reaches [OF r]; rule reaches_init; auto simp: server_start_def conn_start_def)+
qed

lemma writes_are_fifo_witness:
  "cwAccepted written_world = [[1]] @ [[2]] \<and>
   cwAccepted written_world = ecWritten (cwConn written_world) @ somes (ecQueue (cwConn written_world))"
proof -
  have "cwWriter written_world = WRunning" "cwAccepted written_world = [[1], [2]]" by code_simp+
  with writes_are_fifo [OF written_reaches(2)] show ?thesis by simp
qed


text \<open>The writer fails, and a hundred packages fill the queue.\<close>

definition stuck_world :: conn_world where
  "stuck_world = (server_world 1 0)\<lparr>cwWriter := WExit,
     cwConn := (server_connection 0)\<lparr>ecQueue := replicate 100 (Some [1])\<rparr>\<rparr>"

lemma dead_writer_blocks_cleanup_witness:
  "conn_do stuck_world ReadNil = None \<and> conn_do stuck_world (SendPut 0) = None"
  using dead_writer_blocks_cleanup [of stuck_world stuck_world 0]
  by (simp add: stuck_world_def server_world_def server_connection_def)


end
