(* ===== verification/Go_Strings.thy ===== *)
theory Go_Strings
  imports Go_Prelude "HOL-Library.Sublist"
begin

text \<open>
  The functions of Go's \<open>strings\<close> and \<open>strconv\<close> packages the configuration, the registry and the
  node manager use. A Go string is its bytes, a \<open>char list\<close>. \<open>strconv\<close> functions return the
  value Go returns beside the error, since the code uses the value and ignores the error.
\<close>

section \<open>strings\<close>

definition HasPrefix :: "string \<Rightarrow> string \<Rightarrow> bool" where
  "HasPrefix s pre = prefix pre s"

definition HasSuffix :: "string \<Rightarrow> string \<Rightarrow> bool" where
  "HasSuffix s suf = suffix suf s"

text \<open>\<open>strings.Index\<close>: the first position of \<open>sub\<close>, or \<open>- 1\<close>.\<close>

fun Index :: "string \<Rightarrow> string \<Rightarrow> int" where
  "Index [] sub = (if sub = [] then 0 else - 1)"
| "Index (c # s) sub =
     (if prefix sub (c # s) then 0 else let i = Index s sub in if i < 0 then - 1 else i + 1)"

text \<open>\<open>strings.Split\<close> with a separator of one byte.\<close>

fun Split :: "string \<Rightarrow> char \<Rightarrow> string list" where
  "Split [] sep = [[]]"
| "Split (c # s) sep =
     (if c = sep then [] # Split s sep
      else case Split s sep of [] \<Rightarrow> [[c]] | w # ws \<Rightarrow> (c # w) # ws)"

fun Join :: "char \<Rightarrow> string list \<Rightarrow> string" where
  "Join sep [] = []"
| "Join sep [w] = w"
| "Join sep (w # ws) = w @ sep # Join sep ws"

text \<open>The UTF-8 encodings of the runes for which \<open>unicode.IsSpace\<close> holds.\<close>

definition spaces :: "string list" where
  "spaces = map (map char_of)
     ([[9], [10], [11], [12], [13], [32], [194, 133], [194, 160], [225, 154, 128]] @
      map (\<lambda>n. [226, 128, n]) [128 ..< 139] @
      [[226, 128, 168], [226, 128, 169], [226, 128, 175], [226, 129, 159], [227, 128, 128::nat]])"

definition starts_with_space :: "string \<Rightarrow> nat option" where
  "starts_with_space s = map_option length (find (\<lambda>sp. prefix sp s) spaces)"

definition ends_with_space :: "string \<Rightarrow> nat option" where
  "ends_with_space s = map_option length (find (\<lambda>sp. suffix sp s) spaces)"

fun trim_left :: "nat \<Rightarrow> string \<Rightarrow> string" where
  "trim_left 0 s = s"
| "trim_left (Suc n) s =
     (case starts_with_space s of None \<Rightarrow> s | Some k \<Rightarrow> trim_left n (drop k s))"

fun trim_right :: "nat \<Rightarrow> string \<Rightarrow> string" where
  "trim_right 0 s = s"
| "trim_right (Suc n) s =
     (case ends_with_space s of None \<Rightarrow> s | Some k \<Rightarrow> trim_right n (take (length s - k) s))"

text \<open>\<open>strings.TrimSpace\<close>; a string has no more spaces than bytes.\<close>

definition TrimSpace :: "string \<Rightarrow> string" where
  "TrimSpace s = (let s = trim_left (length s) s in trim_right (length s) s)"

text \<open>\<open>strings.ToUpper\<close> of a one-byte string; a byte that is not ASCII is no valid UTF-8 and
  becomes the encoding of U+FFFD.\<close>

definition ToUpper1 :: "char \<Rightarrow> string" where
  "ToUpper1 c =
     (let n = (of_char c :: nat) in
      if 128 \<le> n then map char_of [239, 191, 189 :: nat]
      else if 97 \<le> n \<and> n \<le> 122 then [char_of (n - 32)] else [c])"

section \<open>strconv\<close>

definition is_digit :: "char \<Rightarrow> bool" where
  "is_digit c \<longleftrightarrow> 48 \<le> (of_char c :: nat) \<and> (of_char c :: nat) \<le> 57"

definition digit_val :: "char \<Rightarrow> nat" where
  "digit_val c = of_char c - 48"

definition max_uint64 :: nat where "max_uint64 = 2 ^ 64 - 1"

datatype num_error = ErrSyntax | ErrRange

fun parse_digits :: "nat \<Rightarrow> string \<Rightarrow> nat \<times> num_error option" where
  "parse_digits n [] = (n, None)"
| "parse_digits n (c # s) =
     (if \<not> is_digit c then (0, Some ErrSyntax)
      else if max_uint64 div 10 + 1 \<le> n then (max_uint64, Some ErrRange)
      else let n1 = n * 10 + digit_val c in
        if max_uint64 < n1 then (max_uint64, Some ErrRange) else parse_digits n1 s)"

text \<open>\<open>strconv.ParseUint(s, 10, 0)\<close>\<close>

definition ParseUint :: "string \<Rightarrow> nat \<times> num_error option" where
  "ParseUint s = (if s = [] then (0, Some ErrSyntax) else parse_digits 0 s)"

text \<open>\<open>strconv.ParseInt(s, 10, 0)\<close>, which is also what \<open>strconv.Atoi\<close> returns\<close>

definition ParseInt :: "string \<Rightarrow> int \<times> num_error option" where
  "ParseInt s =
     (if s = [] then (0, Some ErrSyntax)
      else let (neg, digits) = (case s of c # r \<Rightarrow>
             if c = CHR ''+'' then (False, r) else if c = CHR ''-'' then (True, r) else (False, s)) in
        case ParseUint digits of
          (un, Some ErrSyntax) \<Rightarrow> (0, Some ErrSyntax)
        | (un, err) \<Rightarrow>
            (if \<not> neg \<and> 2 ^ 63 \<le> un then (2 ^ 63 - 1, Some ErrRange)
             else if neg \<and> 2 ^ 63 < un then (- (2 ^ 63), Some ErrRange)
             else (if neg then - int un else int un, None)))"

definition Atoi :: "string \<Rightarrow> int \<times> num_error option" where
  "Atoi s = ParseInt s"

definition ParseBool :: "string \<Rightarrow> bool \<times> num_error option" where
  "ParseBool s =
     (if s \<in> {''1'', ''t'', ''T'', ''true'', ''TRUE'', ''True''} then (True, None)
      else if s \<in> {''0'', ''f'', ''F'', ''false'', ''FALSE'', ''False''} then (False, None)
      else (False, Some ErrSyntax))"

text \<open>\<open>strconv.Itoa\<close>\<close>

definition digit_char :: "nat \<Rightarrow> char" where
  "digit_char d = char_of (48 + d)"

fun show_nat :: "nat \<Rightarrow> string" where
  "show_nat n = (if n < 10 then [digit_char n] else show_nat (n div 10) @ [digit_char (n mod 10)])"

declare show_nat.simps [simp del]

definition Itoa :: "int \<Rightarrow> string" where
  "Itoa n = (if n < 0 then CHR ''-'' # show_nat (nat (- n)) else show_nat (nat n))"

section \<open>Split and Join\<close>

lemma Split_not_Nil [simp]: "Split s sep \<noteq> []"
  by (induction s) (auto split: list.splits)

lemma Split_no_sep: "sep \<notin> set s \<Longrightarrow> Split s sep = [s]"
  by (induction s) auto

lemma Split_append: "sep \<notin> set w \<Longrightarrow> Split (w @ sep # s) sep = w # Split s sep"
  by (induction w) (auto split: list.splits)

text \<open>Splitting undoes joining, for words without the separator.\<close>

lemma Split_Join: "ws \<noteq> [] \<Longrightarrow> \<forall>w \<in> set ws. sep \<notin> set w \<Longrightarrow> Split (Join sep ws) sep = ws"
  by (induction sep ws rule: Join.induct) (simp_all add: Split_no_sep Split_append)

lemma Index_single_neg: "c \<notin> set s \<Longrightarrow> Index s [c] = - 1"
  by (induction s) auto

lemma Index_single:
  "c \<notin> set a \<Longrightarrow> Index (a @ c # b) [c] = int (length a)"
  by (induction a) (auto simp: Let_def)

lemma Index_nonneg: "Index s sub < 0 \<Longrightarrow> Index s sub = - 1"
  by (induction s) (auto simp: Let_def split: if_splits)

section \<open>Spaces\<close>

text \<open>Text whose first and last byte are ASCII and not spaces is left alone by \<open>TrimSpace\<close>.\<close>

definition solid :: "char \<Rightarrow> bool" where
  "solid c \<longleftrightarrow> 33 \<le> (of_char c :: nat) \<and> (of_char c :: nat) < 127"

lemma solid_not_space:
  "solid c \<Longrightarrow> sp \<in> set spaces \<Longrightarrow> c \<noteq> hd sp \<and> c \<noteq> last sp \<and> sp \<noteq> []"
  by (auto simp: spaces_def solid_def upt_rec)

lemma solid_starts: "solid c \<Longrightarrow> starts_with_space (c # s) = None"
  using solid_not_space [of c]
  by (force simp: starts_with_space_def find_None_iff prefix_def neq_Nil_conv)

lemma solid_ends: "solid c \<Longrightarrow> ends_with_space (s @ [c]) = None"
  using solid_not_space [of c]
  by (auto simp: ends_with_space_def find_None_iff suffix_def) (metis append_is_Nil_conv last_appendR last_snoc)

definition trimmed :: "string \<Rightarrow> bool" where
  "trimmed s \<longleftrightarrow> s = [] \<or> (solid (hd s) \<and> solid (last s))"

lemma trim_left_solid: "s \<noteq> [] \<Longrightarrow> solid (hd s) \<Longrightarrow> trim_left n s = s"
  by (cases n; cases s) (simp_all add: solid_starts)

lemma trim_right_solid: "s \<noteq> [] \<Longrightarrow> solid (last s) \<Longrightarrow> trim_right n s = s"
  using solid_ends [of "last s" "butlast s"] by (cases n) simp_all

lemma TrimSpace_trimmed: "trimmed s \<Longrightarrow> TrimSpace s = s"
proof (cases "s = []")
  case False
  moreover assume "trimmed s"
  ultimately show ?thesis
    by (simp add: trimmed_def TrimSpace_def trim_left_solid trim_right_solid)
qed (simp add: TrimSpace_def)

section \<open>Numbers\<close>

lemma digit_char_simps:
  "d < 10 \<Longrightarrow> is_digit (digit_char d)" "d < 10 \<Longrightarrow> digit_val (digit_char d) = d"
  by (simp_all add: is_digit_def digit_char_def digit_val_def)

lemma digit_char_neq: "d < 10 \<Longrightarrow> digit_char d \<noteq> CHR ''+'' \<and> digit_char d \<noteq> CHR ''-''"
proof -
  assume "d < 10"
  then have "(of_char (digit_char d) :: nat) = 48 + d"
    by (simp add: digit_char_def)
  then show ?thesis by auto
qed

lemma show_nat_not_Nil [simp]: "show_nat n \<noteq> []"
  by (subst show_nat.simps) simp

lemma show_nat_digits: "c \<in> set (show_nat n) \<Longrightarrow> is_digit c"
proof (induction n rule: show_nat.induct)
  case (1 n)
  show ?case
  proof (cases "n < 10")
    case True
    then have "show_nat n = [digit_char n]" by (simp add: show_nat.simps)
    with 1(2) True show ?thesis by (simp add: digit_char_simps)
  next
    case False
    then have "show_nat n = show_nat (n div 10) @ [digit_char (n mod 10)]"
      by (subst show_nat.simps) simp
    with 1 False show ?thesis by (auto simp: digit_char_simps)
  qed
qed

lemma parse_digits_append:
  "\<forall>c \<in> set s. is_digit c \<Longrightarrow> parse_digits n s = (k, None) \<Longrightarrow>
     parse_digits n (s @ r) = parse_digits k r"
  by (induction s arbitrary: n) (auto simp: Let_def split: if_splits)

text \<open>Parsing undoes printing, for every value of the type.\<close>

lemma parse_digits_show: "n \<le> max_uint64 \<Longrightarrow> parse_digits 0 (show_nat n) = (n, None)"
proof (induction n rule: show_nat.induct)
  case (1 n)
  show ?case
  proof (cases "n < 10")
    case True
    then have "show_nat n = [digit_char n]" by (simp add: show_nat.simps)
    with True show ?thesis
      by (simp add: digit_char_simps max_uint64_def)
  next
    case False
    then have s: "show_nat n = show_nat (n div 10) @ [digit_char (n mod 10)]"
      by (subst show_nat.simps) simp
    have p: "parse_digits 0 (show_nat (n div 10)) = (n div 10, None)"
      using 1 False by (meson div_le_dividend le_trans)
    have "n div 10 \<le> max_uint64 div 10" using 1(2) by (rule div_le_mono)
    then have "\<not> max_uint64 div 10 + 1 \<le> n div 10" by simp
    moreover have "n div 10 * 10 + n mod 10 = n" by simp
    ultimately have "parse_digits (n div 10) [digit_char (n mod 10)] = (n, None)"
      using 1(2) by (simp add: digit_char_simps Let_def)
    then show ?thesis
      unfolding s by (subst parse_digits_append [OF _ p]) (auto intro: show_nat_digits)
  qed
qed

lemma ParseUint_show: "n \<le> max_uint64 \<Longrightarrow> ParseUint (show_nat n) = (n, None)"
  by (simp add: ParseUint_def parse_digits_show)

lemma show_nat_hd: "hd (show_nat n) \<noteq> CHR ''+'' \<and> hd (show_nat n) \<noteq> CHR ''-''"
proof -
  have "is_digit (hd (show_nat n))"
    by (rule show_nat_digits [of _ n]) simp
  then show ?thesis by (auto simp: is_digit_def)
qed

lemma ParseInt_Itoa: "in_i64 n \<Longrightarrow> ParseInt (Itoa n) = (n, None)"
proof (cases "n < 0")
  case True
  assume "in_i64 n"
  with True have "ParseUint (show_nat (nat (- n))) = (nat (- n), None)" "nat (- n) \<le> 2 ^ 63"
    by (auto intro!: ParseUint_show simp: max_uint64_def)
  with True show ?thesis
    by (simp add: Itoa_def ParseInt_def)
next
  case False
  assume "in_i64 n"
  with False have p: "ParseUint (show_nat (nat n)) = (nat n, None)" "nat n < 2 ^ 63"
    by (auto intro!: ParseUint_show simp: max_uint64_def)
  obtain c r where s: "show_nat (nat n) = c # r"
    using show_nat_not_Nil [of "nat n"] by (cases "show_nat (nat n)") auto
  with show_nat_hd [of "nat n"] have "c \<noteq> CHR ''+''" "c \<noteq> CHR ''-''" by auto
  with s p False show ?thesis
    by (simp add: Itoa_def ParseInt_def)
qed

lemma Itoa_chars: "c \<in> set (Itoa n) \<Longrightarrow> is_digit c \<or> c = CHR ''-''"
  by (auto simp: Itoa_def dest: show_nat_digits split: if_splits)

lemma Itoa_not_Nil [simp]: "Itoa n \<noteq> []"
  by (simp add: Itoa_def)

text \<open>No parser skips a space: the value is then 0 and the error is the syntax error.\<close>

lemma parse_digits_syntax:
  "parse_digits n s = (k, Some ErrSyntax) \<Longrightarrow> k = 0"
  by (induction n s rule: parse_digits.induct) (auto simp: Let_def split: if_splits)

lemma ParseInt_space: "ParseInt (CHR '' '' # s) = (0, Some ErrSyntax)"
  by (simp add: ParseInt_def ParseUint_def is_digit_def)

lemma ParseUint_space: "ParseUint (CHR '' '' # s) = (0, Some ErrSyntax)"
  by (simp add: ParseUint_def is_digit_def)

end
