(* ===== verification/Go_Parse_Float.thy ===== *)
theory Go_Parse_Float
  imports Go_Strings Go_Float32
begin

text \<open>
  \<open>strconv.ParseFloat(s, 0)\<close>, which the configuration uses for \<open>float64\<close> values: the syntax of
  decimal and hexadecimal floating-point numbers with underscores, infinities and NaN, and the
  correctly rounded \<open>float64\<close>. A finite non-zero value is its rational number.
\<close>

section \<open>IEEE rounding\<close>

datatype go_float = Num rat | NegZero | Infinite bool | NotANumber

text \<open>Round a positive number to \<open>p\<close> significant bits, the last one not below \<open>2 powi emin\<close>;
  from \<open>2 powi emax\<close> on the result is infinite.\<close>

definition ieee_exp :: "int \<Rightarrow> int \<Rightarrow> rat \<Rightarrow> int" where
  "ieee_exp p emin q = (case quotient_of q of (a, b) \<Rightarrow>
     let e = bitlen a - bitlen b in max emin ((if q < pow2 e then e - 1 else e) - (p - 1)))"

definition ieee_round :: "int \<Rightarrow> int \<Rightarrow> int \<Rightarrow> bool \<Rightarrow> rat \<Rightarrow> go_float" where
  "ieee_round p emin emax neg q =
     (let e = ieee_exp p emin q; r = of_int (rne (q / pow2 e)) * pow2 e in
      if pow2 emax \<le> r then Infinite neg
      else if r = 0 then (if neg then NegZero else Num 0)
      else Num (if neg then - r else r))"

definition to_float64 :: "bool \<Rightarrow> rat \<Rightarrow> go_float" where
  "to_float64 neg q =
     (if q = 0 then (if neg then NegZero else Num 0) else ieee_round 53 (- 1074) 1024 neg q)"

definition float64_to_float32 :: "go_float \<Rightarrow> go_float" where
  "float64_to_float32 x =
     (case x of
        Num q \<Rightarrow> if q = 0 then x else ieee_round 24 (- 149) 128 (q < 0) \<bar>q\<bar>
      | _ \<Rightarrow> x)"

section \<open>Syntax\<close>

definition lower :: "char \<Rightarrow> char" where
  "lower c = (let n = (of_char c :: nat) in if 65 \<le> n \<and> n \<le> 90 then char_of (n + 32) else c)"

text \<open>A digit of the base, if the character is one.\<close>

definition base_digit :: "bool \<Rightarrow> char \<Rightarrow> int option" where
  "base_digit hex c =
     (let n = (of_char (lower c) :: int) in
      if is_digit c then Some (of_char c - 48)
      else if hex \<and> 97 \<le> n \<and> n \<le> 102 then Some (n - 87) else None)"

text \<open>The mantissa: its digits as a number, how many of them come after the point, whether a
  digit was seen, and the rest of the text.\<close>

fun mantissa :: "bool \<Rightarrow> bool \<Rightarrow> bool \<Rightarrow> int \<Rightarrow> int \<Rightarrow> string \<Rightarrow> int \<times> int \<times> bool \<times> string" where
  "mantissa hex dot seen n k [] = (n, k, seen, [])"
| "mantissa hex dot seen n k (c # s) =
     (if c = CHR ''_'' then mantissa hex dot seen n k s
      else if c = CHR ''.'' then
        (if dot then (n, k, seen, c # s) else mantissa hex True seen n k s)
      else case base_digit hex c of
        None \<Rightarrow> (n, k, seen, c # s)
      | Some d \<Rightarrow> mantissa hex dot True ((if hex then 16 else 10) * n + d) (if dot then k + 1 else k) s)"

fun exp_digits :: "int \<Rightarrow> string \<Rightarrow> int \<times> string" where
  "exp_digits e [] = (e, [])"
| "exp_digits e (c # s) =
     (if c = CHR ''_'' then exp_digits e s
      else if is_digit c then exp_digits (if e < 10000 then e * 10 + (of_char c - 48) else e) s
      else (e, c # s))"

text \<open>The exponent after \<open>e\<close> or \<open>p\<close>; \<open>None\<close> when it is malformed.\<close>

definition exponent :: "string \<Rightarrow> (int \<times> string) option" where
  "exponent s =
     (case s of [] \<Rightarrow> None
      | c # r \<Rightarrow>
          (let (neg, s) = (if c = CHR ''+'' then (False, r) else if c = CHR ''-'' then (True, r) else (False, s)) in
           if s = [] \<or> \<not> is_digit (hd s) then None
           else case exp_digits 0 s of (e, r) \<Rightarrow> Some (if neg then - e else e, r)))"

text \<open>\<open>underscoreOK\<close> (after sign and base prefix): underscores only between digits; \<open>prev\<close> is
  the class of the character before.\<close>

datatype before = Start | Digit | Under | Other

fun underscores_ok :: "bool \<Rightarrow> before \<Rightarrow> string \<Rightarrow> bool" where
  "underscores_ok hex prev [] \<longleftrightarrow> prev \<noteq> Under"
| "underscores_ok hex prev (c # s) \<longleftrightarrow>
     (if base_digit hex c \<noteq> None then underscores_ok hex Digit s
      else if c = CHR ''_'' then prev = Digit \<and> underscores_ok hex Under s
      else prev \<noteq> Under \<and> underscores_ok hex Other s)"

definition read_float :: "bool \<Rightarrow> string \<Rightarrow> go_float option" where
  "read_float neg s =
     (let hex = (2 < length s \<and> s ! 0 = CHR ''0'' \<and> lower (s ! 1) = CHR ''x'');
          s = (if hex then drop 2 s else s) in
      case mantissa hex False False 0 0 s of (n, k, seen, r) \<Rightarrow>
        if \<not> seen then None
        else if r \<noteq> [] \<and> lower (hd r) = (if hex then CHR ''p'' else CHR ''e'') then
          (case exponent (tl r) of
             None \<Rightarrow> None
           | Some (e, r) \<Rightarrow>
               if r \<noteq> [] \<or> (CHR ''_'' \<in> set s \<and> \<not> underscores_ok hex (if hex then Digit else Start) s) then None
               else Some (to_float64 neg (if hex then of_int n * pow2 (e - 4 * k)
                                          else if k \<le> e then of_int n * 10 ^ nat (e - k)
                                          else of_int n / 10 ^ nat (k - e))))
        else if hex \<or> r \<noteq> [] \<or> (CHR ''_'' \<in> set s \<and> \<not> underscores_ok hex Start s) then None
        else Some (to_float64 neg (of_int n / 10 ^ nat k)))"

definition ParseFloat :: "string \<Rightarrow> go_float \<times> num_error option" where
  "ParseFloat s =
     (if map lower s = ''nan'' then (NotANumber, None)
      else
        let (neg, r) = (case s of [] \<Rightarrow> (False, [])
          | c # r \<Rightarrow> if c = CHR ''+'' then (False, r) else if c = CHR ''-'' then (True, r) else (False, s)) in
        if map lower r = ''inf'' \<or> map lower r = ''infinity'' then (Infinite neg, None)
        else case read_float neg r of
          None \<Rightarrow> (Num 0, Some ErrSyntax)
        | Some (Infinite b) \<Rightarrow> (Infinite b, Some ErrRange)
        | Some x \<Rightarrow> (x, None))"

section \<open>Checks on the forms the sample configuration uses\<close>

lemma ParseFloat_decimal:
  "ParseFloat ''1.55'' = (Num (6980579422424269 / 4503599627370496), None)"
  by code_simp

lemma ParseFloat_hex: "ParseFloat ''0x1p-2'' = (Num (1 / 4), None)"
  by code_simp

lemma ParseFloat_syntax:
  "ParseFloat ''1._5'' = (Num 0, Some ErrSyntax)" "ParseFloat '' 1'' = (Num 0, Some ErrSyntax)"
  by code_simp+

end
