(* ===== verification/Easy_Config.thy ===== *)
theory Easy_Config
  imports Go_Parse_Float
begin

text \<open>
  The configuration (\<open>easy_config.go\<close>): the file format, the typed getters, the filling of a
  struct, and the loading of local and remote configurations. The file system is a record of
  the state; etcd, a third-party service, is the parameter \<open>etcd\<close>: what a query of a path returns
  at that moment (the error of connecting or of \<open>Get\<close>, or the values found).
  \<open>rwmutex\<close> guards single map accesses and is left out.
\<close>

definition EASYCALL_ETCD_CONFIG_PATH :: string where "EASYCALL_ETCD_CONFIG_PATH = ''/easycall/configs''"
definition EASYCALL_CONFIG_PATH :: string where "EASYCALL_CONFIG_PATH = ''conf''"

section \<open>State\<close>

record easy_config =
  configPath :: string
  configLoaded :: bool
  configVersion :: int
  configName :: string
  container :: "string \<rightharpoonup> string"
  watching :: bool     \<comment> \<open>the goroutine \<open>checkRemoteVersion\<close> has been started\<close>

text \<open>Files with their contents, directories, and the paths on which operations fail.\<close>

record filesystem =
  fsFiles :: "string \<rightharpoonup> string"
  fsDirs :: "string set"
  fsFails :: "string set"

type_synonym etcd = "string \<Rightarrow> go_error + string list"

definition FileIsExist :: "string \<Rightarrow> filesystem \<Rightarrow> bool" where
  "FileIsExist path fs \<longleftrightarrow> fsFiles fs path \<noteq> None \<or> path \<in> fsDirs fs \<or> path \<in> fsFails fs"

definition ReadFile :: "string \<Rightarrow> filesystem \<Rightarrow> go_error + string" where
  "ReadFile path fs =
     (if path \<in> fsFails fs then Inl ''io error''
      else case fsFiles fs path of None \<Rightarrow> Inl ''no such file or directory'' | Some d \<Rightarrow> Inr d)"

definition WriteFile :: "string \<Rightarrow> string \<Rightarrow> filesystem \<Rightarrow> go_error option \<times> filesystem" where
  "WriteFile path data fs =
     (if path \<in> fsFails fs \<or> path \<in> fsDirs fs then (Some ''io error'', fs)
      else (None, fs\<lparr>fsFiles := (fsFiles fs)(path \<mapsto> data)\<rparr>))"

definition MkdirAll :: "string \<Rightarrow> filesystem \<Rightarrow> go_error option \<times> filesystem" where
  "MkdirAll path fs =
     (if path \<in> fsFails fs \<or> fsFiles fs path \<noteq> None then (Some ''io error'', fs)
      else (None, fs\<lparr>fsDirs := insert path (fsDirs fs)\<rparr>))"

section \<open>The file format\<close>

definition getKeyValue :: "string \<Rightarrow> string \<times> string \<times> bool" where
  "getKeyValue line =
     (let index = Index line ''#'';
          line = (if index > - 1 then take (nat index) line else line);
          index = Index line ''='' in
      if index < 1 then ([], [], False)
      else let kv = Split line CHR ''='' in
        if length kv < 2 then ([], [], False)
        else (TrimSpace (kv ! 0), TrimSpace (kv ! 1), True))"

text \<open>\<open>buf.ReadString\<close> up to a newline: the line with its newline and the rest, \<open>None\<close> at the end
  of the file (the bytes before it are given with the error, and \<open>Load\<close> drops them).\<close>

fun ReadString :: "string \<Rightarrow> (string \<times> string) option" where
  "ReadString [] = None"
| "ReadString (c # s) =
     (if c = CHR 0x0A then Some ([c], s)
      else case ReadString s of None \<Rightarrow> None | Some (line, rest) \<Rightarrow> Some (c # line, rest))"

lemma ReadString_shorter: "ReadString s = Some (line, rest) \<Longrightarrow> length rest < length s"
  by (induction s arbitrary: line) (auto split: if_splits option.splits)

function load_loop :: "string \<Rightarrow> easy_config \<Rightarrow> easy_config" where
  "load_loop data ec =
     (case ReadString data of
        None \<Rightarrow> ec
      | Some (line, rest) \<Rightarrow>
          (let (k, v, flag) = getKeyValue (TrimSpace line) in
           load_loop rest (if flag then ec\<lparr>container := (container ec)(k \<mapsto> v)\<rparr> else ec)))"
  by pat_completeness auto
termination
  by (relation "measure (\<lambda>(data, ec). length data)") (auto dest: ReadString_shorter)

declare load_loop.simps [simp del]

definition Load :: "string \<Rightarrow> filesystem \<Rightarrow> easy_config \<Rightarrow> go_error option \<times> easy_config" where
  "Load fileName fs ec =
     (case ReadFile fileName fs of Inl err \<Rightarrow> (Some err, ec) | Inr data \<Rightarrow> (None, load_loop data ec))"

definition NewLocalEasyConfig :: "string \<Rightarrow> filesystem \<Rightarrow> easy_config" where
  "NewLocalEasyConfig path fs =
     (let config = \<lparr>configPath = path, configLoaded = False, configVersion = 0, configName = [],
                    container = Map.empty, watching = False\<rparr> in
      if path \<noteq> [] then snd (Load path fs config) else config)"

section \<open>Remote and local configuration\<close>

definition etcdGet :: "etcd \<Rightarrow> string \<Rightarrow> go_error + string" where
  "etcdGet etcd path =
     (case etcd path of
        Inl err \<Rightarrow> Inl err
      | Inr (v # _) \<Rightarrow> Inr v
      | Inr [] \<Rightarrow> Inl ''path not found'')"

definition versionPath :: "string \<Rightarrow> string" where
  "versionPath name = EASYCALL_ETCD_CONFIG_PATH @ ''/'' @ name @ ''/version''"

definition dataPath :: "string \<Rightarrow> string" where
  "dataPath name = EASYCALL_ETCD_CONFIG_PATH @ ''/'' @ name @ ''/data''"

definition savePath :: "string \<Rightarrow> string" where
  "savePath name = EASYCALL_CONFIG_PATH @ ''/'' @ name"

text \<open>\<open>ioutil.WriteFile\<close> with the error only logged, and the creation of the directory.\<close>

definition write_logged :: "string \<Rightarrow> string \<Rightarrow> filesystem \<Rightarrow> filesystem" where
  "write_logged path data fs = snd (WriteFile path data fs)"

definition ensure_dir :: "string \<Rightarrow> filesystem \<Rightarrow> go_error option \<times> filesystem" where
  "ensure_dir path fs = (if FileIsExist path fs then (None, fs) else MkdirAll path fs)"

definition LoadRemote :: "etcd \<Rightarrow> filesystem \<Rightarrow> easy_config \<Rightarrow> go_error option \<times> filesystem \<times> easy_config" where
  "LoadRemote etcd fs ec =
     (let dir = savePath (configName ec);
          remoteVersionPath = dir @ ''/version'';
          remoteConfigPath = dir @ ''/remote'' in
      case ensure_dir dir fs of
        (Some err, fs) \<Rightarrow> (Some err, fs, ec)
      | (None, fs) \<Rightarrow>
          (let localVersionNum = (case ReadFile remoteVersionPath fs of
                 Inl _ \<Rightarrow> 0 | Inr v \<Rightarrow> fst (Atoi v));
               (remoteVersionNum, fs, ec) = (case etcdGet etcd (versionPath (configName ec)) of
                 Inl _ \<Rightarrow> (0, fs, ec)
               | Inr v \<Rightarrow> (fst (Atoi v), write_logged remoteVersionPath v fs,
                           ec\<lparr>configVersion := fst (Atoi v)\<rparr>));
               fs = (if localVersionNum < remoteVersionNum then
                       (case etcdGet etcd (dataPath (configName ec)) of
                          Inl _ \<Rightarrow> fs
                        | Inr d \<Rightarrow> write_logged remoteConfigPath d fs)
                     else fs);
               ec = (if FileIsExist remoteConfigPath fs then snd (Load remoteConfigPath fs ec) else ec)
           in (None, fs, ec)))"

definition LoadLocal :: "filesystem \<Rightarrow> easy_config \<Rightarrow> go_error option \<times> filesystem \<times> easy_config" where
  "LoadLocal fs ec =
     (let dir = savePath (configName ec); localConfigPath = dir @ ''/local'' in
      case ensure_dir dir fs of
        (Some err, fs) \<Rightarrow> (Some err, fs, ec)
      | (None, fs) \<Rightarrow>
          (None, fs, if FileIsExist localConfigPath fs then snd (Load localConfigPath fs ec) else ec))"

definition LoadAllConfig :: "etcd \<Rightarrow> filesystem \<Rightarrow> easy_config \<Rightarrow> go_error option \<times> filesystem \<times> easy_config" where
  "LoadAllConfig etcd fs ec =
     (case LoadRemote etcd fs ec of
        (Some err, fs, ec) \<Rightarrow> (Some err, fs, ec)
      | (None, fs, ec) \<Rightarrow>
          LoadLocal fs (if configLoaded ec then ec else ec\<lparr>watching := True, configLoaded := True\<rparr>))"

definition NewRemoteEasyConfig :: "etcd \<Rightarrow> string \<Rightarrow> filesystem \<Rightarrow> filesystem \<times> easy_config" where
  "NewRemoteEasyConfig etcd name fs =
     snd (LoadAllConfig etcd fs
       \<lparr>configPath = [], configLoaded = False, configVersion = 0, configName = name,
        container = Map.empty, watching = False\<rparr>)"

text \<open>One tick of \<open>checkRemoteVersion\<close>; \<open>Atoi\<close> of the nil value of a failed query is 0.\<close>

definition checkRemoteVersion :: "etcd \<Rightarrow> filesystem \<Rightarrow> easy_config \<Rightarrow> filesystem \<times> easy_config" where
  "checkRemoteVersion etcd fs ec =
     (let remoteVersion = (case etcdGet etcd (versionPath (configName ec)) of Inl _ \<Rightarrow> [] | Inr v \<Rightarrow> v);
          remoteVersionNum = fst (Atoi remoteVersion) in
      if configVersion ec < remoteVersionNum then snd (LoadAllConfig etcd fs ec) else (fs, ec))"

section \<open>Reading lines\<close>

abbreviation newline :: char where "newline \<equiv> CHR 0x0A"

lemma ReadString_line: "newline \<notin> set l \<Longrightarrow> ReadString (l @ newline # rest) = Some (l @ [newline], rest)"
  by (induction l) auto

lemma ReadString_none: "newline \<notin> set s \<Longrightarrow> ReadString s = None"
  by (induction s) auto

lemma ReadString_append: "ReadString s = Some (l, r) \<Longrightarrow> ReadString (s @ t) = Some (l, r @ t)"
  by (induction s arbitrary: l) (auto split: if_splits option.splits)

lemma ReadString_split: "ReadString s = Some (l, r) \<Longrightarrow> s = l @ r \<and> l \<noteq> [] \<and> last l = newline"
  by (induction s arbitrary: l) (auto split: if_splits option.splits)

lemma ReadString_some: "newline \<in> set s \<Longrightarrow> \<exists>l r. ReadString s = Some (l, r)"
  by (induction s) (auto split: option.splits)

text \<open>Processing one line.\<close>

definition apply_line :: "string \<Rightarrow> easy_config \<Rightarrow> easy_config" where
  "apply_line line ec =
     (let (k, v, flag) = getKeyValue (TrimSpace line) in
      if flag then ec\<lparr>container := (container ec)(k \<mapsto> v)\<rparr> else ec)"

lemma load_loop_none: "ReadString data = None \<Longrightarrow> load_loop data ec = ec"
  by (subst load_loop.simps) simp

lemma load_loop_some:
  "ReadString data = Some (line, rest) \<Longrightarrow> load_loop data ec = load_loop rest (apply_line line ec)"
  by (subst load_loop.simps) (simp add: apply_line_def case_prod_beta Let_def)

lemma apply_line_simps [simp]:
  "configVersion (apply_line line ec) = configVersion ec" "configName (apply_line line ec) = configName ec"
  by (auto simp: apply_line_def Let_def split: prod.splits)

lemma load_induct:
  assumes "\<And>data ec. ReadString data = None \<Longrightarrow> P data ec"
    and "\<And>data ec line rest. ReadString data = Some (line, rest) \<Longrightarrow> P rest (apply_line line ec) \<Longrightarrow> P data ec"
  shows "P data ec"
proof (induction data arbitrary: ec rule: length_induct)
  case (1 data)
  show ?case
  proof (cases "ReadString data")
    case (Some lr)
    then obtain line rest where lr: "ReadString data = Some (line, rest)" by (cases lr) auto
    with 1 ReadString_shorter [OF lr] show ?thesis by (blast intro: assms(2))
  qed (rule assms(1))
qed

lemma load_loop_simps [simp]:
  "configVersion (load_loop data ec) = configVersion ec" "configName (load_loop data ec) = configName ec"
  by (induction data ec rule: load_induct) (simp_all add: load_loop_none load_loop_some)

text \<open>Loading never forgets a key.\<close>

lemma apply_line_dom: "dom (container ec) \<subseteq> dom (container (apply_line line ec))"
  by (auto simp: apply_line_def Let_def split: prod.splits)

lemma load_loop_dom: "dom (container ec) \<subseteq> dom (container (load_loop data ec))"
proof (induction data ec rule: load_induct)
  case (2 data ec line rest)
  with apply_line_dom [of ec line] show ?case by (auto simp: load_loop_some)
qed (simp add: load_loop_none)

text \<open>What comes after the last newline is not read.\<close>

lemma load_loop_tail:
  "newline \<notin> set t \<Longrightarrow> data = [] \<or> last data = newline \<Longrightarrow> load_loop (data @ t) ec = load_loop data ec"
proof (induction data ec rule: load_induct)
  case (1 data ec)
  have "data = []"
  proof (rule ccontr)
    assume "data \<noteq> []"
    with 1 last_in_set [of data] have "newline \<in> set data" by auto
    with ReadString_some [of data] 1 show False by auto
  qed
  with 1 show ?case by (simp add: load_loop_none ReadString_none)
next
  case (2 data ec line rest)
  from ReadString_split [OF 2(1)] 2(4) have "rest = [] \<or> last rest = newline"
    by (cases "rest = []") auto
  with 2 show ?case
    by (simp add: load_loop_some [OF 2(1)] load_loop_some [OF ReadString_append [OF 2(1)]])
qed

section \<open>Rendering and loading\<close>

definition good_entry :: "string \<times> string \<Rightarrow> bool" where
  "good_entry kv \<longleftrightarrow> (case kv of (k, v) \<Rightarrow> k \<noteq> [] \<and> trimmed k \<and> trimmed v \<and>
     set k \<inter> {CHR ''#'', CHR ''='', newline} = {} \<and> set v \<inter> {CHR ''#'', CHR ''='', newline} = {})"

definition render_entry :: "string \<times> string \<Rightarrow> string" where
  "render_entry kv = fst kv @ CHR ''='' # snd kv"

definition render_config :: "(string \<times> string) list \<Rightarrow> string" where
  "render_config kvs = concat (map (\<lambda>kv. render_entry kv @ [newline]) kvs)"

lemma newline_space: "\<forall>sp \<in> set spaces. sp \<noteq> [] \<and> (last sp = newline \<longrightarrow> sp = [newline])"
  by code_simp

lemma trim_right_newline: "s \<noteq> [] \<Longrightarrow> solid (last s) \<Longrightarrow> trim_right (Suc n) (s @ [newline]) = s"
proof -
  assume s: "s \<noteq> []" "solid (last s)"
  have "[newline] \<in> set spaces" by code_simp
  then have "find (\<lambda>sp. suffix sp (s @ [newline])) spaces \<noteq> None"
    by (auto simp: find_None_iff suffix_def)
  then obtain sp where sp: "find (\<lambda>sp. suffix sp (s @ [newline])) spaces = Some sp" by blast
  then have "sp \<in> set spaces" "suffix sp (s @ [newline])"
    unfolding find_Some_iff by (metis nth_mem)+
  then have "sp = [newline]"
    using newline_space by (auto simp: suffix_def append_eq_append_conv2 Cons_eq_append_conv)
  with sp have "find (\<lambda>sp. suffix sp (s @ [newline])) spaces = Some [newline]" by simp
  then have "ends_with_space (s @ [newline]) = Some 1"
    by (simp add: ends_with_space_def)
  with s show ?thesis by (simp add: trim_right_solid)
qed

lemma TrimSpace_line:
  "s \<noteq> [] \<Longrightarrow> trimmed s \<Longrightarrow> TrimSpace (s @ [newline]) = s"
  using trim_left_solid [of "s @ [newline]"] trim_right_newline [of s "length s"]
  by (simp add: TrimSpace_def trimmed_def)

lemma render_trimmed: "good_entry kv \<Longrightarrow> trimmed (render_entry kv) \<and> render_entry kv \<noteq> []"
  by (cases kv) (auto simp: good_entry_def render_entry_def trimmed_def solid_def)

lemma getKeyValue_render:
  assumes "good_entry (k, v)"
  shows "getKeyValue (render_entry (k, v)) = (k, v, True)"
proof -
  from assms have g: "k \<noteq> []" "CHR ''='' \<notin> set k" "CHR ''='' \<notin> set v" "CHR ''#'' \<notin> set (render_entry (k, v))"
    by (auto simp: good_entry_def render_entry_def)
  then have "Index (render_entry (k, v)) ''#'' = - 1" "Index (render_entry (k, v)) ''='' = int (length k)"
    using Index_single_neg [of "CHR ''#''"] Index_single [of "CHR ''=''" k v]
    by (auto simp: render_entry_def)
  moreover have "Split (render_entry (k, v)) CHR ''='' = [k, v]"
    using g by (simp add: render_entry_def Split_append Split_no_sep)
  ultimately show ?thesis
    using assms g(1) by (simp add: getKeyValue_def TrimSpace_trimmed good_entry_def)
qed

lemma apply_line_render:
  "good_entry (k, v) \<Longrightarrow> apply_line (render_entry (k, v) @ [newline]) ec = ec\<lparr>container := (container ec)(k \<mapsto> v)\<rparr>"
  using render_trimmed [of "(k, v)"]
  by (simp add: apply_line_def TrimSpace_line getKeyValue_render)

lemma load_render:
  "\<forall>kv \<in> set kvs. good_entry kv \<Longrightarrow>
     load_loop (render_config kvs) ec = ec\<lparr>container := container ec ++ map_of (rev kvs)\<rparr>"
proof (induction kvs arbitrary: ec)
  case (Cons kv kvs)
  obtain k v where kv: "kv = (k, v)" by (cases kv)
  with Cons.prems have "newline \<notin> set (render_entry kv)"
    by (auto simp: good_entry_def render_entry_def)
  then have "ReadString (render_config (kv # kvs)) = Some (render_entry kv @ [newline], render_config kvs)"
    using ReadString_line [of "render_entry kv"] by (simp add: render_config_def)
  with Cons kv show ?case
    by (simp add: load_loop_some apply_line_render map_add_def fun_eq_iff split: option.splits)
qed (simp add: load_loop_none render_config_def)

section \<open>Fetching the remote configuration\<close>

lemma write_logged_simps [simp]:
  "fsFails (write_logged p d fs) = fsFails fs" "fsDirs (write_logged p d fs) = fsDirs fs"
  "q \<noteq> p \<Longrightarrow> fsFiles (write_logged p d fs) q = fsFiles fs q"
  "p \<notin> fsFails fs \<Longrightarrow> p \<notin> fsDirs fs \<Longrightarrow> fsFiles (write_logged p d fs) = (fsFiles fs)(p \<mapsto> d)"
  by (auto simp: write_logged_def WriteFile_def)

lemma FileIsExist_write [simp]: "FileIsExist q fs \<Longrightarrow> FileIsExist q (write_logged p d fs)"
  by (auto simp: FileIsExist_def write_logged_def WriteFile_def)

lemma Load_simps [simp]:
  "configVersion (snd (Load p fs ec)) = configVersion ec" "configName (snd (Load p fs ec)) = configName ec"
  by (auto simp: Load_def split: sum.splits)

text \<open>\<open>LoadRemote\<close> when the directory is there and the version was found.\<close>

definition remote_files :: "etcd \<Rightarrow> filesystem \<Rightarrow> easy_config \<Rightarrow> string \<Rightarrow> filesystem" where
  "remote_files etcd fs ec v =
     (let dir = savePath (configName ec); fs1 = write_logged (dir @ ''/version'') v fs in
      if (case ReadFile (dir @ ''/version'') fs of Inl _ \<Rightarrow> 0 | Inr w \<Rightarrow> fst (Atoi w)) < fst (Atoi v) then
        (case etcdGet etcd (dataPath (configName ec)) of
           Inl _ \<Rightarrow> fs1 | Inr d \<Rightarrow> write_logged (dir @ ''/remote'') d fs1)
      else fs1)"

lemma LoadRemote_found:
  assumes "FileIsExist (savePath (configName ec)) fs"
    and "etcdGet etcd (versionPath (configName ec)) = Inr v"
  obtains ec' where "LoadRemote etcd fs ec = (None, remote_files etcd fs ec v, ec')"
    "configVersion ec' = fst (Atoi v)" "configName ec' = configName ec"
proof -
  let ?ec = "ec\<lparr>configVersion := fst (Atoi v)\<rparr>"
  let ?p = "savePath (configName ec) @ ''/remote''" and ?fs = "remote_files etcd fs ec v"
  have "LoadRemote etcd fs ec = (None, ?fs, if FileIsExist ?p ?fs then snd (Load ?p ?fs ?ec) else ?ec)"
    using assms by (simp add: LoadRemote_def ensure_dir_def remote_files_def Let_def)
  then show ?thesis
    by (rule that) simp_all
qed

section \<open>Properties\<close>

text \<open>
  C35: loading the lines \<open>k=v\<close> of a list of entries gives exactly these bindings, a later line
  winning over an earlier one and over what was there, for keys and values without the special
  characters and without outer spaces.
\<close>

theorem load_roundtrip:
  assumes "\<forall>kv \<in> set kvs. good_entry kv" "ReadFile path fs = Inr (render_config kvs)"
  shows "Load path fs ec = (None, ec\<lparr>container := container ec ++ map_of (rev kvs)\<rparr>)"
  using assms by (simp add: Load_def load_render)

text \<open>
  \<open>Load\<close> ignores the last line of a file that does not end with a newline, whatever it says.
\<close>

theorem unterminated_line_ignored:
  assumes "newline \<notin> set line" "data = [] \<or> last data = newline"
    "ReadFile path fs = Inr (data @ line)" "ReadFile path' fs = Inr data"
  shows "Load path fs ec = Load path' fs ec"
  using assms by (simp add: Load_def load_loop_tail)

text \<open>
  No load and no reload removes a key: what has once been configured stays, also when it has
  been deleted from every file and from the remote configuration.
\<close>

theorem reload_keeps_keys:
  "dom (container ec) \<subseteq> dom (container (snd (checkRemoteVersion etcd fs ec)))"
proof -
  have ll: "dom (container c) \<subseteq> dom (container (snd (Load p fs c)))" for p fs c
    using load_loop_dom by (auto simp: Load_def split: sum.splits)
  have keep: "\<exists>z. container (snd (Load p fs c)) x = Some z" if "container c x \<noteq> None" for p fs c x
    using ll [of c p fs] that by blast
  have remote: "dom (container c) \<subseteq> dom (container (snd (snd (LoadRemote etcd fs c))))" for fs c
    by (auto simp: LoadRemote_def Let_def split: prod.splits option.splits sum.splits intro!: keep)
  have loc: "dom (container c) \<subseteq> dom (container (snd (snd (LoadLocal fs c))))" for fs c
    by (auto simp: LoadLocal_def Let_def split: prod.splits option.splits intro!: keep)
  have "dom (container ec) \<subseteq> dom (container (snd (snd (LoadAllConfig etcd fs ec))))"
  proof -
    obtain e fs1 ec1 where r: "LoadRemote etcd fs ec = (e, fs1, ec1)"
      by (cases "LoadRemote etcd fs ec") auto
    with remote [of ec fs] have m: "dom (container ec) \<subseteq> dom (container ec1)" by simp
    from loc [of "ec1\<lparr>watching := True, configLoaded := True\<rparr>" fs1]
    have "dom (container ec1) \<subseteq>
        dom (container (snd (snd (LoadLocal fs1 (ec1\<lparr>watching := True, configLoaded := True\<rparr>)))))"
      by simp
    from order_trans [OF m this] order_trans [OF m loc [of ec1 fs1]] m r show ?thesis
      by (cases e; cases "configLoaded ec1"; simp add: LoadAllConfig_def)
  qed
  then show ?thesis by (simp add: checkRemoteVersion_def Let_def)
qed

text \<open>
  \<open>LoadRemote\<close> records the new version, on disk and in memory, before it fetches the data.
  When the fetch fails the data of that version is never fetched again: a later \<open>LoadRemote\<close>
  writes no file, and the periodic check sees nothing to do.
\<close>

theorem failed_fetch_not_retried:
  assumes "LoadRemote etcd fs ec = (None, fs1, ec1)"
    and "etcdGet etcd (versionPath (configName ec)) = Inr v"
    and "etcdGet etcd (dataPath (configName ec)) = Inl err"
    and "FileIsExist (savePath (configName ec)) fs"
    and "savePath (configName ec) @ ''/version'' \<notin> fsFails fs \<union> fsDirs fs"
    and later: "etcdGet etcd' (versionPath (configName ec)) = Inr v"
    and "LoadRemote etcd' fs1 ec1 = (e, fs2, ec2)"
  shows "fsFiles fs1 (savePath (configName ec) @ ''/remote'') = fsFiles fs (savePath (configName ec) @ ''/remote'') \<and>
    fsFiles fs2 = fsFiles fs1 \<and> checkRemoteVersion etcd' fs1 ec1 = (fs1, ec1)"
proof -
  let ?vp = "savePath (configName ec) @ ''/version''"
  from LoadRemote_found [OF assms(4,2)] assms(1)
  have fs1: "fs1 = remote_files etcd fs ec v"
    and ec1: "configVersion ec1 = fst (Atoi v)" "configName ec1 = configName ec"
    by (metis Pair_inject)+
  from fs1 assms(3,5)
  have f1: "fs1 = write_logged ?vp v fs"
    by (simp add: remote_files_def Let_def)
  with assms(5) have v1: "fsFiles fs1 ?vp = Some v" "?vp \<notin> fsFails fs1" "?vp \<notin> fsDirs fs1"
    by simp_all
  have dir1: "FileIsExist (savePath (configName ec1)) fs1"
    using assms(4) by (simp add: f1 ec1)
  have "fs2 = remote_files etcd' fs1 ec1 v"
    using LoadRemote_found [OF dir1 later [folded ec1(2)]] assms(7) by (metis Pair_inject)
  with v1 have "fsFiles fs2 = fsFiles fs1"
    by (auto simp: remote_files_def Let_def ReadFile_def ec1)
  moreover have "checkRemoteVersion etcd' fs1 ec1 = (fs1, ec1)"
    using later by (simp add: checkRemoteVersion_def ec1)
  moreover have "fsFiles fs1 (savePath (configName ec) @ ''/remote'') = fsFiles fs (savePath (configName ec) @ ''/remote'')"
    by (simp add: f1)
  ultimately show ?thesis by blast
qed

section \<open>Witnesses\<close>

definition blank_config :: easy_config where
  "blank_config = \<lparr>configPath = [], configLoaded = True, configVersion = 0, configName = ''app'',
     container = Map.empty, watching = True\<rparr>"

definition one_file :: "string \<Rightarrow> filesystem" where
  "one_file data = \<lparr>fsFiles = [''a.ini'' \<mapsto> data, ''b.ini'' \<mapsto> ''''], fsDirs = {''conf/app''}, fsFails = {}\<rparr>"

lemma load_roundtrip_witness:
  "Load ''a.ini'' (one_file (render_config [(''port'', ''80''), (''port'', ''8080'')])) blank_config =
     (None, blank_config\<lparr>container := [''port'' \<mapsto> ''8080'']\<rparr>)"
proof -
  let ?kvs = "[(''port'', ''80''), (''port'', ''8080'')]"
  have "\<forall>kv \<in> set ?kvs. good_entry kv"
    by (simp add: good_entry_def trimmed_def solid_def)
  from load_roundtrip [OF this, of "''a.ini''" "one_file (render_config ?kvs)" blank_config]
  show ?thesis
    by (simp add: one_file_def ReadFile_def blank_config_def)
qed

lemma unterminated_line_ignored_witness:
  "Load ''a.ini'' (one_file ''port=80'') blank_config = Load ''b.ini'' (one_file ''port=80'') blank_config"
  by (rule unterminated_line_ignored [of "''port=80''" "[]"]) (simp_all add: one_file_def ReadFile_def)

text \<open>The version can be read and the data cannot; later both can.\<close>

definition first_etcd :: etcd where
  "first_etcd path = (if path = versionPath ''app'' then Inr [''7''] else Inl ''timeout'')"

definition later_etcd :: etcd where
  "later_etcd path = (if path = versionPath ''app'' then Inr [''7''] else Inr [''port=80''])"

lemma failed_fetch_not_retried_witness:
  "checkRemoteVersion later_etcd (fst (snd (LoadRemote first_etcd (one_file []) blank_config)))
       (snd (snd (LoadRemote first_etcd (one_file []) blank_config))) =
     snd (LoadRemote first_etcd (one_file []) blank_config)"
proof -
  have n: "configName blank_config = ''app''" by (simp add: blank_config_def)
  have dir: "FileIsExist (savePath (configName blank_config)) (one_file [])"
    by (simp add: FileIsExist_def one_file_def savePath_def EASYCALL_CONFIG_PATH_def n)
  have v: "etcdGet first_etcd (versionPath (configName blank_config)) = Inr ''7''"
    "etcdGet later_etcd (versionPath (configName blank_config)) = Inr ''7''"
    by (simp_all add: etcdGet_def first_etcd_def later_etcd_def n)
  have "etcdGet first_etcd (dataPath (configName blank_config)) = Inl ''timeout''"
    by (simp add: etcdGet_def first_etcd_def n versionPath_def dataPath_def)
  moreover obtain fs1 ec1 where r: "LoadRemote first_etcd (one_file []) blank_config = (None, fs1, ec1)"
    using LoadRemote_found [OF dir v(1)] by blast
  moreover obtain e fs2 ec2 where "LoadRemote later_etcd fs1 ec1 = (e, fs2, ec2)"
    by (metis prod_cases3)
  ultimately have "checkRemoteVersion later_etcd fs1 ec1 = (fs1, ec1)"
    using failed_fetch_not_retried [OF r v(1) _ dir _ v(2)]
    by (simp add: one_file_def savePath_def EASYCALL_CONFIG_PATH_def n)
  with r show ?thesis by simp
qed

end
