(* ===== verification/Config_Values.thy ===== *)
theory Config_Values
  imports Easy_Config
begin

text \<open>
  The typed access to the configuration: the getters, the list and map syntax of values, and
  \<open>GetConfig\<close>, which fills the fields of a struct by reflection. A struct is the map from the
  names of its settable fields to typed values; Go visits the entries of a map in any order, so
  \<open>GetConfig\<close> takes the entries as a list.
\<close>

section \<open>Values\<close>

fun map_entries :: "(string \<Rightarrow> 'v) \<Rightarrow> string list \<Rightarrow> (string \<rightharpoonup> 'v) \<Rightarrow> (string \<rightharpoonup> 'v)" where
  "map_entries f [] mapValues = mapValues"
| "map_entries f (value # values) mapValues =
     (let kv = Split value CHR '':'' in
      map_entries f values
        (if length kv = 2 then mapValues(TrimSpace (kv ! 0) \<mapsto> f (kv ! 1)) else mapValues))"

definition getStringUint64Map :: "string \<Rightarrow> (string \<rightharpoonup> nat)" where
  "getStringUint64Map v = map_entries (\<lambda>s. fst (ParseUint s)) (Split v CHR '','') Map.empty"

definition getStringStringMap :: "string \<Rightarrow> (string \<rightharpoonup> string)" where
  "getStringStringMap v = map_entries TrimSpace (Split v CHR '','') Map.empty"

definition getStringInt64Map :: "string \<Rightarrow> (string \<rightharpoonup> int)" where
  "getStringInt64Map v = map_entries (\<lambda>s. fst (ParseInt s)) (Split v CHR '','') Map.empty"

definition getStringFloat64Map :: "string \<Rightarrow> (string \<rightharpoonup> go_float)" where
  "getStringFloat64Map v = map_entries (\<lambda>s. fst (ParseFloat s)) (Split v CHR '','') Map.empty"

definition getStringBoolMap :: "string \<Rightarrow> (string \<rightharpoonup> bool)" where
  "getStringBoolMap v = map_entries (\<lambda>s. fst (ParseBool s)) (Split v CHR '','') Map.empty"

definition getUint64List :: "string \<Rightarrow> nat list" where
  "getUint64List v = map (\<lambda>s. fst (ParseUint s)) (Split v CHR '','')"

definition getFloat64List :: "string \<Rightarrow> go_float list" where
  "getFloat64List v = map (\<lambda>s. fst (ParseFloat s)) (Split v CHR '','')"

definition getInt64List :: "string \<Rightarrow> int list" where
  "getInt64List v = map (\<lambda>s. fst (ParseInt s)) (Split v CHR '','')"

definition getStringList :: "string \<Rightarrow> string list" where
  "getStringList v = Split v CHR '',''"

section \<open>Getters\<close>

definition HasConfig :: "string \<Rightarrow> easy_config \<Rightarrow> bool" where
  "HasConfig name ec \<longleftrightarrow> container ec name \<noteq> None"

definition GetUint64 :: "string \<Rightarrow> nat \<Rightarrow> easy_config \<Rightarrow> nat" where
  "GetUint64 name defaultValue ec =
     (case container ec name of Some v \<Rightarrow> fst (ParseUint v) | None \<Rightarrow> defaultValue)"

definition GetInt64 :: "string \<Rightarrow> int \<Rightarrow> easy_config \<Rightarrow> int" where
  "GetInt64 name defaultValue ec =
     (case container ec name of Some v \<Rightarrow> fst (ParseInt v) | None \<Rightarrow> defaultValue)"

definition GetBool :: "string \<Rightarrow> bool \<Rightarrow> easy_config \<Rightarrow> bool" where
  "GetBool name defaultValue ec =
     (case container ec name of Some v \<Rightarrow> fst (ParseBool v) | None \<Rightarrow> defaultValue)"

definition GetFloat64 :: "string \<Rightarrow> go_float \<Rightarrow> easy_config \<Rightarrow> go_float" where
  "GetFloat64 name defaultValue ec =
     (case container ec name of Some v \<Rightarrow> fst (ParseFloat v) | None \<Rightarrow> defaultValue)"

definition GetString :: "string \<Rightarrow> string \<Rightarrow> easy_config \<Rightarrow> string" where
  "GetString name defaultValue ec =
     (case container ec name of Some v \<Rightarrow> v | None \<Rightarrow> defaultValue)"

definition GetStringUint64Map :: "string \<Rightarrow> easy_config \<Rightarrow> (string \<rightharpoonup> nat)" where
  "GetStringUint64Map name ec =
     (case container ec name of Some v \<Rightarrow> getStringUint64Map v | None \<Rightarrow> Map.empty)"

definition GetStringStringMap :: "string \<Rightarrow> easy_config \<Rightarrow> (string \<rightharpoonup> string)" where
  "GetStringStringMap name ec =
     (case container ec name of Some v \<Rightarrow> getStringStringMap v | None \<Rightarrow> Map.empty)"

definition GetStringInt64Map :: "string \<Rightarrow> easy_config \<Rightarrow> (string \<rightharpoonup> int)" where
  "GetStringInt64Map name ec =
     (case container ec name of Some v \<Rightarrow> getStringInt64Map v | None \<Rightarrow> Map.empty)"

definition GetStringFloat64Map :: "string \<Rightarrow> easy_config \<Rightarrow> (string \<rightharpoonup> go_float)" where
  "GetStringFloat64Map name ec =
     (case container ec name of Some v \<Rightarrow> getStringFloat64Map v | None \<Rightarrow> Map.empty)"

definition GetStringBoolMap :: "string \<Rightarrow> easy_config \<Rightarrow> (string \<rightharpoonup> bool)" where
  "GetStringBoolMap name ec =
     (case container ec name of Some v \<Rightarrow> getStringBoolMap v | None \<Rightarrow> Map.empty)"

definition GetUint64List :: "string \<Rightarrow> easy_config \<Rightarrow> nat list" where
  "GetUint64List name ec = (case container ec name of Some v \<Rightarrow> getUint64List v | None \<Rightarrow> [])"

definition GetFloat64List :: "string \<Rightarrow> easy_config \<Rightarrow> go_float list" where
  "GetFloat64List name ec = (case container ec name of Some v \<Rightarrow> getFloat64List v | None \<Rightarrow> [])"

definition GetInt64List :: "string \<Rightarrow> easy_config \<Rightarrow> int list" where
  "GetInt64List name ec = (case container ec name of Some v \<Rightarrow> getInt64List v | None \<Rightarrow> [])"

definition GetStringList :: "string \<Rightarrow> easy_config \<Rightarrow> string list" where
  "GetStringList name ec = (case container ec name of Some v \<Rightarrow> getStringList v | None \<Rightarrow> [])"

section \<open>GetConfig\<close>

text \<open>A field with its kind; integer kinds carry their width. \<open>OtherField\<close> is any kind, slice or
  map the code passes over.\<close>

datatype field =
    UintField nat nat | IntField nat int | BoolField bool | StringField string
  | Float32Field go_float | Float64Field go_float
  | Int64s "int list" | Uint64s "nat list" | Strings "string list" | Float64s "go_float list"
  | Int64Map "string \<rightharpoonup> int" | Uint64Map "string \<rightharpoonup> nat" | Float64Map "string \<rightharpoonup> go_float"
  | BoolMap "string \<rightharpoonup> bool" | StringMap "string \<rightharpoonup> string"
  | OtherField

type_synonym struct = "string \<rightharpoonup> field"

text \<open>\<open>SetUint\<close> and \<open>SetInt\<close> cut the value to the width of the field.\<close>

fun set_field :: "string \<Rightarrow> field \<Rightarrow> field" where
  "set_field v (UintField w _) = UintField w (fst (ParseUint v) mod 2 ^ w)"
| "set_field v (IntField w _) = IntField w ((fst (ParseInt v) + 2 ^ (w - 1)) mod 2 ^ w - 2 ^ (w - 1))"
| "set_field v (BoolField _) = BoolField (fst (ParseBool v))"
| "set_field v (StringField _) = StringField v"
| "set_field v (Float32Field _) = Float32Field (float64_to_float32 (fst (ParseFloat v)))"
| "set_field v (Float64Field _) = Float64Field (fst (ParseFloat v))"
| "set_field v (Int64s _) = Int64s (getInt64List v)"
| "set_field v (Uint64s _) = Uint64s (getUint64List v)"
| "set_field v (Strings _) = Strings (getStringList v)"
| "set_field v (Float64s _) = Float64s (getFloat64List v)"
| "set_field v (Int64Map _) = Int64Map (getStringInt64Map v)"
| "set_field v (Uint64Map _) = Uint64Map (getStringUint64Map v)"
| "set_field v (Float64Map _) = Float64Map (getStringFloat64Map v)"
| "set_field v (BoolMap _) = BoolMap (getStringBoolMap v)"
| "set_field v (StringMap _) = StringMap (getStringStringMap v)"
| "set_field v OtherField = OtherField"

text \<open>The name of the field a key is for: \<open>k[0:1]\<close> panics on the empty rest.\<close>

definition field_name :: "string \<Rightarrow> string \<Rightarrow> string outcome" where
  "field_name pre k =
     (let k = drop (length pre) k in
      obind (slice k 0 1) (\<lambda>c. Ret (concat (map ToUpper1 c) @ drop 1 k)))"

fun GetConfig :: "string \<Rightarrow> (string \<times> string) list \<Rightarrow> struct \<Rightarrow> struct outcome" where
  "GetConfig pre [] value = Ret value"
| "GetConfig pre ((k, v) # entries) value =
     (if HasPrefix k pre \<and> Index k pre > - 1 then
        obind (field_name pre k) (\<lambda>name.
          GetConfig pre entries (value(name := map_option (set_field v) (value name))))
      else GetConfig pre entries value)"

section \<open>Lists and maps\<close>

lemma comma_not_in_Itoa: "CHR '','' \<notin> set (Itoa n)" "CHR '':'' \<notin> set (Itoa n)"
  by (auto dest!: Itoa_chars simp: is_digit_def)

text \<open>The text of a map, its entries in the given order.\<close>

definition render_pair :: "string \<times> int \<Rightarrow> string" where
  "render_pair kv = fst kv @ CHR '':'' # Itoa (snd kv)"

definition good_key :: "string \<Rightarrow> bool" where
  "good_key k \<longleftrightarrow> trimmed k \<and> CHR '','' \<notin> set k \<and> CHR '':'' \<notin> set k"

lemma map_entries_render:
  "\<forall>(k, n) \<in> set kvs. good_key k \<and> in_i64 n \<Longrightarrow>
     map_entries (\<lambda>s. fst (ParseInt s)) (map render_pair kvs) m = m ++ map_of (rev kvs)"
proof (induction kvs arbitrary: m)
  case (Cons kv kvs)
  obtain k n where kv: "kv = (k, n)" by (cases kv)
  with Cons.prems have k: "good_key k" "in_i64 n" by auto
  then have "Split (render_pair kv) CHR '':'' = [k, Itoa n]"
    using comma_not_in_Itoa by (simp add: kv render_pair_def Split_append Split_no_sep good_key_def)
  with k Cons show ?case
    by (simp add: kv TrimSpace_trimmed ParseInt_Itoa good_key_def map_add_def fun_eq_iff split: option.splits)
qed simp

section \<open>Filling a struct\<close>

lemma set_field_set_field [simp]: "set_field v (set_field v' f) = set_field v f"
  by (cases f) simp_all

lemma map_option_set_field [simp]:
  "map_option (set_field v) (map_option (set_field v') x) = map_option (set_field v) x"
  by (cases x) simp_all

lemma prefix_Index: "prefix pre k \<Longrightarrow> Index k pre = 0"
  by (cases k) (auto simp: prefix_def)

text \<open>The entries \<open>GetConfig\<close> uses, by the name of the field they are for.\<close>

definition targets :: "string \<Rightarrow> (string \<times> string) list \<Rightarrow> (string \<times> string) list" where
  "targets pre entries =
     map (\<lambda>(k, v). (case field_name pre k of Ret n \<Rightarrow> n | Panic _ \<Rightarrow> [], v))
       (filter (\<lambda>(k, v). HasPrefix k pre) entries)"

fun fill_fields :: "struct \<Rightarrow> (string \<times> string) list \<Rightarrow> struct" where
  "fill_fields st [] = st"
| "fill_fields st ((n, v) # ts) = fill_fields (st(n := map_option (set_field v) (st n))) ts"

lemma field_name_returns: "HasPrefix k pre \<Longrightarrow> k \<noteq> pre \<Longrightarrow> \<exists>n. field_name pre k = Ret n"
  by (auto simp: field_name_def HasPrefix_def prefix_def slice_def Let_def Suc_le_eq)

lemma GetConfig_targets:
  "\<forall>(k, v) \<in> set entries. k \<noteq> pre \<Longrightarrow>
     GetConfig pre entries st0 =
       Ret (fill_fields st0 (targets pre entries))"
proof (induction entries arbitrary: st0)
  case (Cons kv entries)
  obtain k v where kv: "kv = (k, v)" by (cases kv)
  with Cons.prems have "k \<noteq> pre" by auto
  show ?case
  proof (cases "HasPrefix k pre")
    case True
    with field_name_returns [OF True \<open>k \<noteq> pre\<close>] obtain n where "field_name pre k = Ret n" by blast
    with True Cons kv show ?thesis
      by (simp add: targets_def prefix_Index HasPrefix_def)
  next
    case False
    with Cons kv show ?thesis by (simp add: targets_def)
  qed
qed (simp add: targets_def)

lemma fill_other:
  "n \<notin> fst ` set ts \<Longrightarrow> fill_fields st0 ts n = st0 n"
  by (induction ts arbitrary: st0) auto

lemma fill_target:
  "distinct (map fst ts) \<Longrightarrow> (n, v) \<in> set ts \<Longrightarrow>
     fill_fields st0 ts n = map_option (set_field v) (st0 n)"
proof (induction ts arbitrary: st0)
  case (Cons t ts)
  obtain n' v' where t: "t = (n', v')" by (cases t)
  show ?case
  proof (cases "(n, v) = t")
    case True
    with Cons.prems t have "n \<notin> fst ` set ts" by auto
    with fill_other True t show ?thesis by simp
  next
    case False
    with Cons.prems t have "n \<noteq> n'" "(n, v) \<in> set ts" by (auto simp: image_iff)
    with Cons t show ?thesis by simp
  qed
qed simp

section \<open>Properties\<close>

text \<open>
  A list of 64-bit integers written with commas and a map written \<open>k:n,k:n\<close> are read back as
  they were, the later of two equal keys winning.
\<close>

theorem int_values_roundtrip:
  assumes "xs \<noteq> []" "\<forall>n \<in> set xs. in_i64 n" "kvs \<noteq> []" "\<forall>(k, n) \<in> set kvs. good_key k \<and> in_i64 n"
  shows "getInt64List (Join CHR '','' (map Itoa xs)) = xs \<and>
    getStringInt64Map (Join CHR '','' (map render_pair kvs)) = map_of (rev kvs)"
proof
  have "Split (Join CHR '','' (map Itoa xs)) CHR '','' = map Itoa xs"
    using assms(1) comma_not_in_Itoa by (intro Split_Join) auto
  moreover have "map (\<lambda>n. fst (ParseInt (Itoa n))) xs = map (\<lambda>n. n) xs"
    using assms(2) by (intro map_cong) (simp_all add: ParseInt_Itoa)
  ultimately show "getInt64List (Join CHR '','' (map Itoa xs)) = xs"
    by (simp add: getInt64List_def comp_def)
  have "Split (Join CHR '','' (map render_pair kvs)) CHR '','' = map render_pair kvs"
    using assms(3,4) comma_not_in_Itoa
    by (intro Split_Join) (auto simp: render_pair_def good_key_def)
  with map_entries_render [OF assms(4), of Map.empty]
  show "getStringInt64Map (Join CHR '','' (map render_pair kvs)) = map_of (rev kvs)"
    by (simp add: getStringInt64Map_def)
qed

text \<open>
  The number parsers skip no space and their errors are ignored: in a list written with a
  space after each comma every number but the first is read as 0.
\<close>

theorem spaced_list_reads_zero:
  assumes "in_i64 x"
  shows "getInt64List (Join CHR '','' (Itoa x # map (\<lambda>y. CHR '' '' # Itoa y) ys)) =
    x # replicate (length ys) 0"
proof -
  let ?ws = "Itoa x # map (\<lambda>y. CHR '' '' # Itoa y) ys"
  have "Split (Join CHR '','' ?ws) CHR '','' = ?ws"
    using comma_not_in_Itoa by (intro Split_Join) auto
  with assms show ?thesis
    by (simp add: getInt64List_def ParseInt_Itoa ParseInt_space comp_def map_replicate_const)
qed

text \<open>
  C37: \<open>GetConfig\<close> returns unless the prefix itself is a key. Then every field with an entry gets
  the parsed value, every other field is left alone, and the order in which Go visits the map does
  not matter, as long as no two keys are for the same field.
\<close>

theorem getconfig_fills_fields:
  assumes "\<forall>(k, v) \<in> set entries. k \<noteq> pre" "distinct (map fst (targets pre entries))"
  shows "\<exists>value'. GetConfig pre entries st0 = Ret value' \<and>
    (\<forall>(n, v) \<in> set (targets pre entries). value' n = map_option (set_field v) (st0 n)) \<and>
    (\<forall>n. n \<notin> fst ` set (targets pre entries) \<longrightarrow> value' n = st0 n) \<and>
    (\<forall>entries'. set entries' = set entries \<longrightarrow> distinct (map fst (targets pre entries')) \<longrightarrow>
       GetConfig pre entries' st0 = Ret value')"
proof -
  let ?fill = "\<lambda>ts. fill_fields st0 ts"
  have same: "?fill (targets pre entries') = ?fill (targets pre entries)"
    if e: "set entries' = set entries" "distinct (map fst (targets pre entries'))" for entries'
  proof
    fix n
    have s: "set (targets pre entries') = set (targets pre entries)"
      using e(1) by (auto simp: targets_def)
    show "?fill (targets pre entries') n = ?fill (targets pre entries) n"
    proof (cases "n \<in> fst ` set (targets pre entries)")
      case True
      then obtain v where "(n, v) \<in> set (targets pre entries)" by force
      with s fill_target [OF e(2)] fill_target [OF assms(2)] show ?thesis by simp
    next
      case False
      with s show ?thesis by (simp add: fill_other)
    qed
  qed
  have "GetConfig pre entries' st0 = Ret (?fill (targets pre entries))"
    if "set entries' = set entries" "distinct (map fst (targets pre entries'))" for entries'
    using that same GetConfig_targets [of entries' pre st0] assms(1) by simp
  then show ?thesis
    using GetConfig_targets [OF assms(1), of st0] fill_target [OF assms(2)] fill_other
    by (intro exI [of _ "?fill (targets pre entries)"]) auto
qed

text \<open>
  A key equal to the prefix makes \<open>GetConfig\<close> panic on the slice of the empty rest of the
  key, whatever the other entries, their order and the struct are.
\<close>

theorem getconfig_panics_on_prefix_key:
  assumes "(pre, v) \<in> set entries"
  shows "GetConfig pre entries st0 = Panic SliceBounds"
  using assms
proof (induction entries arbitrary: st0)
  case (Cons kv entries)
  have fp: "field_name pre k = Panic p \<Longrightarrow> p = SliceBounds" for k p
    by (auto simp: field_name_def Let_def obind_Panic_conv slice_Panic_conv)
  have "field_name pre pre = Panic SliceBounds"
    by (simp add: field_name_def slice_def)
  with Cons fp show ?case
    by (cases kv; cases "field_name pre (fst kv)") (auto simp: HasPrefix_def prefix_Index)
qed simp

section \<open>Witnesses\<close>

lemma Itoa_samples: "Itoa 1 = ''1''" "Itoa 2 = ''2''" "Itoa 7 = ''7''" "Itoa (- 20) = ''-20''"
  by code_simp+

lemma int_values_roundtrip_witness:
  "getInt64List ''1,-20'' = [1, -20] \<and> getStringInt64Map ''a:7'' = [''a'' \<mapsto> 7]"
  using int_values_roundtrip [of "[1, -20]" "[(''a'', 7)]"]
  by (simp add: good_key_def trimmed_def solid_def Itoa_samples render_pair_def)

lemma spaced_list_reads_zero_witness: "getInt64List ''1, 2'' = [1, 0]"
  using spaced_list_reads_zero [of 1 "[2]"] by (simp add: Itoa_samples)

lemma getconfig_fills_fields_witness:
  "\<exists>value'. GetConfig ''app.'' [(''app.port'', ''80''), (''other'', ''1'')] [''Port'' \<mapsto> IntField 64 0] = Ret value' \<and>
     value' ''Port'' = Some (IntField 64 80)"
proof -
  have t: "targets ''app.'' [(''app.port'', ''80''), (''other'', ''1'')] = [(''Port'', ''80'')]"
    by code_simp
  show ?thesis
    using getconfig_fills_fields [of "[(''app.port'', ''80''), (''other'', ''1'')]" "''app.''"
      "[''Port'' \<mapsto> IntField 64 0]"] t
    by (auto simp: ParseInt_def ParseUint_def is_digit_def digit_val_def max_uint64_def simp del: GetConfig.simps)
qed

lemma getconfig_panics_on_prefix_key_witness:
  "GetConfig ''app.'' [(''app.port'', ''80''), (''app.'', ''1'')] Map.empty = Panic SliceBounds"
  by (rule getconfig_panics_on_prefix_key [of _ "''1''"]) simp

section \<open>Types of fields\<close>

text \<open>The Go type of a field, and the values it can hold.\<close>

datatype field_type =
    TUint nat | TInt nat | TBool | TString | TFloat32 | TFloat64
  | TInt64s | TUint64s | TStrings | TFloat64s
  | TInt64Map | TUint64Map | TFloat64Map | TBoolMap | TStringMap | TOther

fun type_of_field :: "field \<Rightarrow> field_type" where
  "type_of_field (UintField w _) = TUint w"
| "type_of_field (IntField w _) = TInt w"
| "type_of_field (BoolField _) = TBool"
| "type_of_field (StringField _) = TString"
| "type_of_field (Float32Field _) = TFloat32"
| "type_of_field (Float64Field _) = TFloat64"
| "type_of_field (Int64s _) = TInt64s"
| "type_of_field (Uint64s _) = TUint64s"
| "type_of_field (Strings _) = TStrings"
| "type_of_field (Float64s _) = TFloat64s"
| "type_of_field (Int64Map _) = TInt64Map"
| "type_of_field (Uint64Map _) = TUint64Map"
| "type_of_field (Float64Map _) = TFloat64Map"
| "type_of_field (BoolMap _) = TBoolMap"
| "type_of_field (StringMap _) = TStringMap"
| "type_of_field OtherField = TOther"

fun fits_type :: "field \<Rightarrow> bool" where
  "fits_type (UintField w n) \<longleftrightarrow> n < 2 ^ w"
| "fits_type (IntField w n) \<longleftrightarrow> - (2 ^ (w - 1)) \<le> n \<and> n < 2 ^ (w - 1)"
| "fits_type (Int64s xs) \<longleftrightarrow> (\<forall>n \<in> set xs. in_i64 n)"
| "fits_type (Uint64s xs) \<longleftrightarrow> (\<forall>n \<in> set xs. n \<le> max_uint64)"
| "fits_type (Int64Map m) \<longleftrightarrow> (\<forall>n \<in> ran m. in_i64 n)"
| "fits_type (Uint64Map m) \<longleftrightarrow> (\<forall>n \<in> ran m. n \<le> max_uint64)"
| "fits_type _ \<longleftrightarrow> True"

text \<open>Integer fields have at least one bit.\<close>

fun wide :: "field_type \<Rightarrow> bool" where
  "wide (TInt w) \<longleftrightarrow> 0 < w"
| "wide _ \<longleftrightarrow> True"

lemma parse_digits_max: "n \<le> max_uint64 \<Longrightarrow> fst (parse_digits n s) \<le> max_uint64"
  by (induction n s rule: parse_digits.induct) (auto simp: Let_def)

lemma ParseUint_max: "fst (ParseUint s) \<le> max_uint64"
  by (simp add: ParseUint_def parse_digits_max)

lemma ParseInt_range: "in_i64 (fst (ParseInt s))"
  by (auto simp: ParseInt_def Let_def split: list.splits prod.splits option.splits num_error.splits)

lemma map_entries_ran: "ran m \<subseteq> A \<Longrightarrow> range f \<subseteq> A \<Longrightarrow> ran (map_entries f vs m) \<subseteq> A"
proof (induction f vs m rule: map_entries.induct)
  case (2 f v vs m)
  have "ran (m(k \<mapsto> f x)) \<subseteq> A" for k x
    using 2(2,3) by (auto simp: ran_def subset_iff)
  with 2 show ?case by (simp add: Let_def)
qed simp

lemma set_field_type: "wide (type_of_field x) \<Longrightarrow> type_of_field (set_field v x) = type_of_field x \<and> fits_type (set_field v x)"
proof (cases x)
  case (IntField w n)
  assume "wide (type_of_field x)"
  with IntField have "(2 :: int) ^ w = 2 * 2 ^ (w - 1)" by (cases w) simp_all
  moreover have "0 \<le> k mod 2 ^ w" "k mod 2 ^ w < 2 ^ w" for k :: int by simp_all
  ultimately show ?thesis
    using IntField by (simp add: algebra_simps)
next
  case (Int64Map m)
  then show ?thesis
    using map_entries_ran [of Map.empty "{n. in_i64 n}" "\<lambda>s. fst (ParseInt s)" "Split v CHR '',''"] ParseInt_range
    by (auto simp: getStringInt64Map_def)
next
  case (Uint64Map m)
  then show ?thesis
    using map_entries_ran [of Map.empty "{..max_uint64}" "\<lambda>s. fst (ParseUint s)" "Split v CHR '',''"] ParseUint_max
    by (auto simp: getStringUint64Map_def)
qed (use ParseInt_range ParseUint_max in \<open>auto simp: getInt64List_def getUint64List_def\<close>)



end
