(* ===== verification/Json_Head.thy ===== *)
theory Json_Head
  imports Easy_Package Go_Strings
begin

text \<open>
  The JSON serialiser of the package head: what \<open>encoding/json\<close> does with an \<open>EasyHead\<close>. The
  encoder is \<open>Encode\<close> of that struct (HTML-safe escapes, coercion to valid UTF-8, a final
  newline); the decoder is a JSON parser and the assignment of an object's members to the fields.
  The parser's recursion is bounded by fuel, for which the length of the text suffices; the
  decoder's limit on the nesting depth is not modelled.
  The theory interprets the contract \<open>head_codec\<close> of the framing for this serialiser.
\<close>

section \<open>UTF-8\<close>

abbreviation cd :: "char \<Rightarrow> nat" where "cd c \<equiv> of_char c"

abbreviation cont :: "char \<Rightarrow> bool" where "cont c \<equiv> 128 \<le> cd c \<and> cd c \<le> 191"

text \<open>The length of the valid encoding a text starts with.\<close>

fun utf8_len :: "string \<Rightarrow> nat option" where
  "utf8_len [] = None"
| "utf8_len (a # s) =
     (if cd a < 128 then Some 1
      else if 194 \<le> cd a \<and> cd a \<le> 223 then
        (case s of b # _ \<Rightarrow> if cont b then Some 2 else None | _ \<Rightarrow> None)
      else if 224 \<le> cd a \<and> cd a \<le> 239 then
        (case s of b # c # _ \<Rightarrow>
           if cont b \<and> cont c \<and> (cd a = 224 \<longrightarrow> 160 \<le> cd b) \<and> (cd a = 237 \<longrightarrow> cd b \<le> 159)
           then Some 3 else None
         | _ \<Rightarrow> None)
      else if 240 \<le> cd a \<and> cd a \<le> 244 then
        (case s of b # c # d # _ \<Rightarrow>
           if cont b \<and> cont c \<and> cont d \<and> (cd a = 240 \<longrightarrow> 144 \<le> cd b) \<and> (cd a = 244 \<longrightarrow> cd b \<le> 143)
           then Some 4 else None
         | _ \<Rightarrow> None)
      else None)"

lemma utf8_len_bounds: "utf8_len s = Some k \<Longrightarrow> 0 < k \<and> k \<le> length s"
  by (cases s) (auto split: if_splits list.splits)

lemma utf8_len_take: "utf8_len s = Some k \<Longrightarrow> utf8_len (take k s @ r) = Some k"
  by (cases s) (auto split: if_splits list.splits)

lemma utf8_len_ascii: "utf8_len (a # s) = Some k \<Longrightarrow> cd a < 128 \<longleftrightarrow> k = 1"
  by (auto split: if_splits list.splits)

declare utf8_len.simps [simp del]

function valid_utf8 :: "string \<Rightarrow> bool" where
  "valid_utf8 s \<longleftrightarrow> s = [] \<or> (case utf8_len s of None \<Rightarrow> False | Some k \<Rightarrow> valid_utf8 (drop k s))"
  by pat_completeness auto
termination
  by (relation "measure length") (auto dest: utf8_len_bounds)

declare valid_utf8.simps [simp del]

lemma utf8_len_append:
  assumes "utf8_len s = Some k"
  shows "utf8_len (s @ r) = Some k"
proof -
  have "s @ r = take k s @ (drop k s @ r)" by (metis append.assoc append_take_drop_id)
  then show ?thesis using utf8_len_take [OF assms] by metis
qed

lemma valid_utf8_append: "valid_utf8 s \<Longrightarrow> valid_utf8 r \<Longrightarrow> valid_utf8 (s @ r)"
proof (induction s rule: valid_utf8.induct)
  case (1 s)
  show ?case
  proof (cases "s = []")
    case False
    with "1.prems"(1) obtain k where k: "utf8_len s = Some k" "valid_utf8 (drop k s)"
      by (subst (asm) valid_utf8.simps) (auto split: option.splits)
    with 1 False have "valid_utf8 (drop k s @ r)" by blast
    moreover have "utf8_len (s @ r) = Some k" "drop k (s @ r) = drop k s @ r"
      using utf8_len_append [OF k(1)] utf8_len_bounds [OF k(1)] by simp_all
    ultimately show ?thesis by (subst valid_utf8.simps) simp
  qed (simp add: "1.prems")
qed

definition replacement :: string where
  "replacement = map char_of [239, 191, 189 :: nat]"

text \<open>The encoding of a code point.\<close>

definition utf8_encode :: "nat \<Rightarrow> string" where
  "utf8_encode r =
     (if r < 128 then [char_of r]
      else if r < 2048 then map char_of [192 + r div 64, 128 + r mod 64]
      else if 55296 \<le> r \<and> r < 57344 \<or> 1114112 \<le> r then replacement
      else if r < 65536 then map char_of [224 + r div 4096, 128 + r div 64 mod 64, 128 + r mod 64]
      else map char_of [240 + r div 262144, 128 + r div 4096 mod 64, 128 + r div 64 mod 64, 128 + r mod 64])"

section \<open>Encoding\<close>

definition hex_char :: "nat \<Rightarrow> char" where
  "hex_char d = (if d < 10 then char_of (48 + d) else char_of (87 + d))"

definition escape_u :: "nat \<Rightarrow> string" where
  "escape_u n = [CHR 0x5C, CHR ''u'', hex_char (n div 4096 mod 16), hex_char (n div 256 mod 16),
                 hex_char (n div 16 mod 16), hex_char (n mod 16)]"

text \<open>An ASCII byte of a string.\<close>

definition enc_ascii :: "char \<Rightarrow> string" where
  "enc_ascii c =
     (if c = CHR 0x22 \<or> c = CHR 0x5C then [CHR 0x5C, c]
      else if c = CHR 0x0A then [CHR 0x5C, CHR ''n'']
      else if c = CHR 0x0D then [CHR 0x5C, CHR ''r'']
      else if c = CHR 0x09 then [CHR 0x5C, CHR ''t'']
      else if cd c < 32 \<or> c = CHR ''<'' \<or> c = CHR ''>'' \<or> c = CHR ''&'' then escape_u (cd c)
      else [c])"

text \<open>U+2028 and U+2029 are escaped, for JavaScript.\<close>

definition line_separators :: "string list" where
  "line_separators = map (map char_of) [[226, 128, 168], [226, 128, 169 :: nat]]"

definition enc_rune :: "string \<Rightarrow> string" where
  "enc_rune w =
     (if length w = 1 then enc_ascii (hd w)
      else if w = line_separators ! 0 then escape_u 8232
      else if w = line_separators ! 1 then escape_u 8233
      else w)"

function enc_chars :: "string \<Rightarrow> string" where
  "enc_chars s =
     (if s = [] then []
      else case utf8_len s of
        None \<Rightarrow> escape_u 65533 @ enc_chars (tl s)
      | Some k \<Rightarrow> enc_rune (take k s) @ enc_chars (drop k s))"
  by pat_completeness auto
termination
  by (relation "measure length") (auto dest: utf8_len_bounds)

declare enc_chars.simps [simp del]

definition enc_string :: "string \<Rightarrow> string" where
  "enc_string s = [CHR 0x22] @ enc_chars s @ [CHR 0x22]"

datatype json_value = JNull | JBool bool | JNum string | JStr string
  | JArr "json_value list" | JObj "(string \<times> json_value) list"

text \<open>The members of a head are strings and numbers.\<close>

fun enc_flat :: "json_value \<Rightarrow> string" where
  "enc_flat (JStr s) = enc_string s"
| "enc_flat (JNum n) = n"
| "enc_flat _ = []"

fun enc_members :: "(string \<times> json_value) list \<Rightarrow> string" where
  "enc_members [] = []"
| "enc_members [(k, v)] = enc_string k @ [CHR '':''] @ enc_flat v"
| "enc_members ((k, v) # kvs) = enc_string k @ [CHR '':''] @ enc_flat v @ [CHR '',''] @ enc_members kvs"

definition head_members :: "easy_head \<Rightarrow> (string \<times> json_value) list" where
  "head_members h =
     [(''service'', JStr (hService h)), (''method'', JStr (hMethod h)), (''routeKey'', JStr (hRouteKey h)),
      (''token'', JStr (hToken h)), (''uid'', JNum (show_nat (unat (hUid h)))),
      (''requestIp'', JStr (hRequestIp h)), (''traceId'', JStr (hTraceId h)),
      (''seq'', JNum (show_nat (unat (hSeq h)))), (''ret'', JNum (Itoa (hRet h))), (''msg'', JStr (hMsg h))]"

definition to_bytes :: "string \<Rightarrow> byte list" where
  "to_bytes s = map (\<lambda>c. of_nat (cd c)) s"

definition of_bytes :: "byte list \<Rightarrow> string" where
  "of_bytes b = map (\<lambda>x. char_of (unat x)) b"

definition json_enc_head :: "easy_head \<Rightarrow> go_error + byte list" where
  "json_enc_head h = Inr (to_bytes ([CHR ''{''] @ enc_members (head_members h) @ [CHR ''}'', CHR 0x0A]))"

section \<open>Parsing\<close>

definition skip_ws :: "string \<Rightarrow> string" where
  "skip_ws s = dropWhile (\<lambda>c. c \<in> {CHR '' '', CHR 0x09, CHR 0x0A, CHR 0x0D}) s"

definition hex_val :: "char \<Rightarrow> nat option" where
  "hex_val c =
     (if is_digit c then Some (cd c - 48)
      else if 97 \<le> cd c \<and> cd c \<le> 102 then Some (cd c - 87)
      else if 65 \<le> cd c \<and> cd c \<le> 70 then Some (cd c - 55) else None)"

text \<open>The four digits after \<open>\u\<close> (the text starts with them).\<close>

fun hex4 :: "string \<Rightarrow> nat option" where
  "hex4 (a # b # c # d # _) =
     (case (hex_val a, hex_val b, hex_val c, hex_val d) of
        (Some a, Some b, Some c, Some d) \<Rightarrow> Some (((a * 16 + b) * 16 + c) * 16 + d)
      | _ \<Rightarrow> None)"
| "hex4 _ = None"

definition simple_escape :: "char \<Rightarrow> char option" where
  "simple_escape c =
     (if c = CHR 0x22 \<or> c = CHR 0x5C \<or> c = CHR ''/'' then Some c
      else if c = CHR ''b'' then Some (CHR 0x08) else if c = CHR ''f'' then Some (CHR 0x0C)
      else if c = CHR ''n'' then Some (CHR 0x0A) else if c = CHR ''r'' then Some (CHR 0x0D)
      else if c = CHR ''t'' then Some (CHR 0x09) else None)"

text \<open>A surrogate pair \<open>\uD8xx\uDCxx\<close>: the second half, if the text starts with one.\<close>

definition low_surrogate :: "string \<Rightarrow> nat option" where
  "low_surrogate s =
     (if take 2 s = [CHR 0x5C, CHR ''u''] then
        (case hex4 (drop 2 s) of
           Some l \<Rightarrow> if 56320 \<le> l \<and> l < 57344 then Some l else None | None \<Rightarrow> None)
      else None)"

text \<open>The contents of a string up to its closing quote, and what follows.\<close>

function parse_chars :: "string \<Rightarrow> (string \<times> string) option" where
  "parse_chars [] = None"
| "parse_chars (c # s) =
     (if c = CHR 0x22 then Some ([], s)
      else if cd c < 32 then None
      else if c = CHR 0x5C then
        (case s of [] \<Rightarrow> None
         | e # r \<Rightarrow>
             if e = CHR ''u'' then
               (case hex4 r of None \<Rightarrow> None
                | Some n \<Rightarrow>
                    (case (if 55296 \<le> n \<and> n < 56320 then low_surrogate (drop 4 r) else None) of
                       Some l \<Rightarrow> map_option (apfst (\<lambda>t. utf8_encode (65536 + (n - 55296) * 1024 + (l - 56320)) @ t))
                                   (parse_chars (drop 10 r))
                     | None \<Rightarrow> map_option (apfst (\<lambda>t. utf8_encode n @ t)) (parse_chars (drop 4 r))))
             else (case simple_escape e of None \<Rightarrow> None
                   | Some x \<Rightarrow> map_option (apfst (\<lambda>t. x # t)) (parse_chars r)))
      else case utf8_len (c # s) of
        None \<Rightarrow> map_option (apfst (\<lambda>t. replacement @ t)) (parse_chars s)
      | Some k \<Rightarrow> map_option (apfst (\<lambda>t. take k (c # s) @ t)) (parse_chars (drop k (c # s))))"
  by pat_completeness auto
termination
  by (relation "measure length") (auto dest: utf8_len_bounds)

declare parse_chars.simps(2) [simp del]

definition digits :: "string \<Rightarrow> string \<times> string" where
  "digits s = (takeWhile is_digit s, dropWhile is_digit s)"

definition parse_frac :: "string \<Rightarrow> (string \<times> string) option" where
  "parse_frac s =
     (case s of
        c # r \<Rightarrow>
          if c = CHR ''.'' then (case digits r of (ds, r) \<Rightarrow> if ds = [] then None else Some (c # ds, r))
          else Some ([], s)
      | [] \<Rightarrow> Some ([], s))"

definition parse_exp :: "string \<Rightarrow> (string \<times> string) option" where
  "parse_exp s =
     (case s of
        c # r \<Rightarrow>
          if c = CHR ''e'' \<or> c = CHR ''E'' then
            (let (sg, r) = (case r of d # r' \<Rightarrow> if d = CHR ''+'' \<or> d = CHR ''-'' then ([d], r') else ([], r)
                            | [] \<Rightarrow> ([], r)) in
             case digits r of (ds, r) \<Rightarrow> if ds = [] then None else Some (c # sg @ ds, r))
          else Some ([], s)
      | [] \<Rightarrow> Some ([], s))"

text \<open>A number, kept as its text.\<close>

definition parse_number :: "string \<Rightarrow> (string \<times> string) option" where
  "parse_number s =
     (let (sg, s) = (case s of c # r \<Rightarrow> if c = CHR ''-'' then ([c], r) else ([], s) | [] \<Rightarrow> ([], s));
          (ds, r) = (case s of c # r \<Rightarrow> if c = CHR ''0'' then ([c], r) else digits s | [] \<Rightarrow> ([], s)) in
      if ds = [] then None
      else case parse_frac r of None \<Rightarrow> None
         | Some (fr, r) \<Rightarrow> (case parse_exp r of None \<Rightarrow> None
             | Some (ex, r) \<Rightarrow> Some (sg @ ds @ fr @ ex, r)))"

definition parse_word :: "string \<Rightarrow> json_value \<Rightarrow> string \<Rightarrow> (json_value \<times> string) option" where
  "parse_word w v s = (if prefix w s then Some (v, drop (length w) s) else None)"

fun parse_value :: "nat \<Rightarrow> string \<Rightarrow> (json_value \<times> string) option"
  and parse_elems :: "nat \<Rightarrow> string \<Rightarrow> (json_value list \<times> string) option"
  and parse_members :: "nat \<Rightarrow> string \<Rightarrow> ((string \<times> json_value) list \<times> string) option" where
  "parse_value 0 s = None"
| "parse_value (Suc n) s =
     (case skip_ws s of [] \<Rightarrow> None
      | c # r \<Rightarrow>
          if c = CHR 0x22 then map_option (apfst JStr) (parse_chars r)
          else if c = CHR ''{'' then
            (case skip_ws r of
               d # r' \<Rightarrow> if d = CHR ''}'' then Some (JObj [], r') else map_option (apfst JObj) (parse_members n r)
             | [] \<Rightarrow> None)
          else if c = CHR ''['' then
            (case skip_ws r of
               d # r' \<Rightarrow> if d = CHR '']'' then Some (JArr [], r') else map_option (apfst JArr) (parse_elems n r)
             | [] \<Rightarrow> None)
          else if c = CHR ''t'' then parse_word ''true'' (JBool True) (c # r)
          else if c = CHR ''f'' then parse_word ''false'' (JBool False) (c # r)
          else if c = CHR ''n'' then parse_word ''null'' JNull (c # r)
          else map_option (apfst JNum) (parse_number (c # r)))"
| "parse_elems 0 s = None"
| "parse_elems (Suc n) s =
     (case parse_value n s of None \<Rightarrow> None
      | Some (v, r) \<Rightarrow>
          (case skip_ws r of
             c # r' \<Rightarrow> if c = CHR '','' then map_option (apfst ((#) v)) (parse_elems n r')
                      else if c = CHR '']'' then Some ([v], r') else None
           | [] \<Rightarrow> None))"
| "parse_members 0 s = None"
| "parse_members (Suc n) s =
     (case skip_ws s of
        q # r \<Rightarrow>
          if q \<noteq> CHR 0x22 then None
          else (case parse_chars r of None \<Rightarrow> None
            | Some (k, r) \<Rightarrow>
                (case skip_ws r of
                   c # r \<Rightarrow>
                     if c \<noteq> CHR '':'' then None
                     else (case parse_value n r of None \<Rightarrow> None
                       | Some (v, r) \<Rightarrow>
                           (case skip_ws r of
                              c # r' \<Rightarrow> if c = CHR '','' then map_option (apfst ((#) (k, v))) (parse_members n r')
                                       else if c = CHR ''}'' then Some ([(k, v)], r') else None
                            | [] \<Rightarrow> None))
                 | [] \<Rightarrow> None))
      | [] \<Rightarrow> None)"

section \<open>Assigning the members\<close>

text \<open>Two names match when they are equal up to case; \<open>U+017F\<close> and \<open>U+212A\<close> fold to \<open>s\<close> and \<open>k\<close>.\<close>

fun fold_case :: "string \<Rightarrow> string" where
  "fold_case [] = []"
| "fold_case (c # s) =
     (if cd c = 197 \<and> s \<noteq> [] \<and> cd (hd s) = 191 then CHR ''s'' # fold_case (tl s)
      else if cd c = 226 \<and> take 2 (map (of_char :: char \<Rightarrow> nat) s) = [132, 170]
           then CHR ''k'' # fold_case (drop 2 s)
      else (if 65 \<le> cd c \<and> cd c \<le> 90 then char_of (cd c + 32) else c) # fold_case s)"

definition mismatch :: go_error where "mismatch = ''json: cannot unmarshal''"

text \<open>One member: an unknown name and \<open>null\<close> change nothing; a value of the wrong type is reported
  at the end and changes nothing.\<close>

definition set_text :: "json_value \<Rightarrow> (string \<Rightarrow> 'a) \<Rightarrow> 'a \<Rightarrow> go_error + 'a" where
  "set_text v f h = (case v of JStr s \<Rightarrow> Inr (f s) | JNull \<Rightarrow> Inr h | _ \<Rightarrow> Inl mismatch)"

definition set_uint :: "json_value \<Rightarrow> (uint64 \<Rightarrow> 'a) \<Rightarrow> 'a \<Rightarrow> go_error + 'a" where
  "set_uint v f h =
     (case v of
        JNum n \<Rightarrow> (case ParseUint n of (u, None) \<Rightarrow> Inr (f (of_nat u)) | _ \<Rightarrow> Inl mismatch)
      | JNull \<Rightarrow> Inr h | _ \<Rightarrow> Inl mismatch)"

definition set_int :: "json_value \<Rightarrow> (int \<Rightarrow> 'a) \<Rightarrow> 'a \<Rightarrow> go_error + 'a" where
  "set_int v f h =
     (case v of
        JNum n \<Rightarrow> (case ParseInt n of (i, None) \<Rightarrow> Inr (f i) | _ \<Rightarrow> Inl mismatch)
      | JNull \<Rightarrow> Inr h | _ \<Rightarrow> Inl mismatch)"

definition set_member :: "string \<Rightarrow> json_value \<Rightarrow> easy_head \<Rightarrow> go_error + easy_head" where
  "set_member k v h =
     (let k = fold_case k in
      if k = ''service'' then set_text v (\<lambda>s. h\<lparr>hService := s\<rparr>) h
      else if k = ''method'' then set_text v (\<lambda>s. h\<lparr>hMethod := s\<rparr>) h
      else if k = ''routekey'' then set_text v (\<lambda>s. h\<lparr>hRouteKey := s\<rparr>) h
      else if k = ''token'' then set_text v (\<lambda>s. h\<lparr>hToken := s\<rparr>) h
      else if k = ''uid'' then set_uint v (\<lambda>n. h\<lparr>hUid := n\<rparr>) h
      else if k = ''requestip'' then set_text v (\<lambda>s. h\<lparr>hRequestIp := s\<rparr>) h
      else if k = ''traceid'' then set_text v (\<lambda>s. h\<lparr>hTraceId := s\<rparr>) h
      else if k = ''seq'' then set_uint v (\<lambda>n. h\<lparr>hSeq := n\<rparr>) h
      else if k = ''ret'' then set_int v (\<lambda>n. h\<lparr>hRet := n\<rparr>) h
      else if k = ''msg'' then set_text v (\<lambda>s. h\<lparr>hMsg := s\<rparr>) h
      else Inr h)"

fun set_members ::
    "(string \<Rightarrow> json_value \<Rightarrow> 'a \<Rightarrow> go_error + 'a) \<Rightarrow> (string \<times> json_value) list \<Rightarrow> bool \<Rightarrow> 'a \<Rightarrow> go_error + 'a" where
  "set_members set1 [] ok h = (if ok then Inr h else Inl mismatch)"
| "set_members set1 ((k, v) # kvs) ok h =
     (case set1 k v h of Inl _ \<Rightarrow> set_members set1 kvs False h | Inr h' \<Rightarrow> set_members set1 kvs ok h')"

definition json_dec_head :: "byte list \<Rightarrow> go_error + easy_head" where
  "json_dec_head b =
     (let s = of_bytes b in
      case parse_value (Suc (length s)) s of
        None \<Rightarrow> Inl ''invalid character or EOF''
      | Some (JObj kvs, _) \<Rightarrow> set_members set_member kvs True NewEasyHead
      | Some (JNull, _) \<Rightarrow> Inr NewEasyHead
      | Some _ \<Rightarrow> Inl mismatch)"

section \<open>The round trip\<close>

subsection \<open>Strings\<close>

lemma hex_val_hex_char: "d < 16 \<Longrightarrow> hex_val (hex_char d) = Some d"
  by (auto simp: hex_val_def hex_char_def is_digit_def)

lemma hex4_escape:
  assumes "n < 65536"
  shows "hex4 (drop 2 (escape_u n @ t)) = Some n"
proof -
  have q: "n div 256 = n div 16 div 16" "n div 4096 = n div 16 div 16 div 16"
    by (simp_all flip: div_mult2_eq)
  have "n div 16 div 16 div 16 mod 16 = n div 16 div 16 div 16"
    using assms by (simp flip: div_mult2_eq add: less_mult_imp_div_less)
  then have sum: "((n div 4096 mod 16 * 16 + n div 256 mod 16) * 16 + n div 16 mod 16) * 16 + n mod 16 = n"
    unfolding q by (metis div_mult_mod_eq)
  moreover have "n div 4096 mod 16 = n div 4096"
    using assms by (simp add: less_mult_imp_div_less)
  ultimately have "((n div 4096 * 16 + n div 256 mod 16) * 16 + n div 16 mod 16) * 16 + n mod 16 = n"
    by simp
  with sum show ?thesis
    by (simp add: escape_u_def hex_val_hex_char)
qed

lemma parse_escape_u:
  assumes "n < 55296"
  shows "parse_chars (escape_u n @ t) = map_option (apfst (\<lambda>x. utf8_encode n @ x)) (parse_chars t)"
proof -
  obtain r where r: "escape_u n @ t = CHR 0x5C # CHR ''u'' # r" "drop 4 r = t" "r = drop 2 (escape_u n @ t)"
    by (simp add: escape_u_def)
  from hex4_escape [of n t] assms have "hex4 r = Some n" unfolding r(3) by (simp del: drop_append)
  with r(2) assms show ?thesis
    unfolding r(1) by (subst parse_chars.simps) simp
qed

lemma cd_inject: "cd c = cd d \<longleftrightarrow> c = d"
  by (metis char_of_char)

lemma utf8_encode_ascii: "cd c < 128 \<Longrightarrow> utf8_encode (cd c) = [c]"
  by (simp add: utf8_encode_def)

lemma append_fun: "(@) [c] = (#) c" "(@) (c # w) = (\<lambda>x. c # w @ x)"
  by (rule ext, simp)+

lemma parse_ascii:
  assumes "cd c < 128"
  shows "parse_chars (enc_ascii c @ t) = map_option (apfst (\<lambda>x. c # x)) (parse_chars t)"
proof -
  have plain: "parse_chars (c # t) = map_option (apfst (\<lambda>x. c # x)) (parse_chars t)"
    if "c \<noteq> CHR 0x22" "c \<noteq> CHR 0x5C" "32 \<le> cd c"
    using that assms by (subst parse_chars.simps) (simp add: utf8_len.simps append_fun(1))
  have esc: "parse_chars (CHR 0x5C # e # t) = map_option (apfst (\<lambda>x. d # x)) (parse_chars t)"
    if "e \<noteq> CHR ''u''" "simple_escape e = Some d" for e d
    using that by (subst parse_chars.simps) simp
  have "enc_ascii c = escape_u (cd c) \<or> enc_ascii c = [c] \<and> 32 \<le> cd c"
    if "c \<noteq> CHR 0x22" "c \<noteq> CHR 0x5C" "c \<noteq> CHR 0x0A" "c \<noteq> CHR 0x0D" "c \<noteq> CHR 0x09"
    using that by (simp add: enc_ascii_def not_less)
  then consider "c = CHR 0x22" | "c = CHR 0x5C" | "c = CHR 0x0A" | "c = CHR 0x0D" | "c = CHR 0x09"
    | "enc_ascii c = escape_u (cd c)" | "enc_ascii c = [c]" "c \<noteq> CHR 0x22" "c \<noteq> CHR 0x5C" "32 \<le> cd c"
    by blast
  then show ?thesis
  proof cases
    case 6
    then show ?thesis
      using parse_escape_u [of "cd c" t] assms by (simp add: utf8_encode_ascii)
  next
    case 7
    with plain show ?thesis by simp
  qed (simp_all add: enc_ascii_def esc simple_escape_def)
qed

lemma separators_encode:
  "utf8_encode 8232 = line_separators ! 0" "utf8_encode 8233 = line_separators ! 1"
  by (simp_all add: utf8_encode_def line_separators_def)

lemma parse_rune:
  assumes "utf8_len s = Some k"
  shows "parse_chars (enc_rune (take k s) @ t) = map_option (apfst (\<lambda>x. take k s @ x)) (parse_chars t)"
proof -
  let ?w = "take k s"
  from utf8_len_bounds [OF assms] obtain c w where w: "?w = c # w" and k: "length ?w = k"
    by (cases s; cases k) auto
  from utf8_len_take [OF assms] w have u: "utf8_len (c # w @ t) = Some k" by simp
  show ?thesis
  proof (cases "k = 1")
    case True
    with k have "length (c # w) = 1" unfolding w by simp
    then have "w = []" by simp
    with parse_ascii [of c t] u True w show ?thesis
      by (simp add: enc_rune_def utf8_len_ascii)
  next
    case False
    with u have c: "128 \<le> cd c" by (metis utf8_len_ascii not_le)
    then have "c \<noteq> CHR 0x22" "c \<noteq> CHR 0x5C" by auto
    with u c w k have verbatim: "parse_chars (?w @ t) = map_option (apfst (\<lambda>x. ?w @ x)) (parse_chars t)"
      unfolding w append_Cons
      by (subst parse_chars.simps) (simp add: take_Cons' drop_Cons' append_fun split: if_splits)
    show ?thesis
      using False k verbatim parse_escape_u [of 8232 t] parse_escape_u [of 8233 t] separators_encode
      by (auto simp: enc_rune_def)
  qed
qed

lemma parse_enc_chars:
  "valid_utf8 s \<Longrightarrow> parse_chars (enc_chars s @ CHR 0x22 # r) = Some (s, r)"
proof (induction s rule: enc_chars.induct)
  case (1 s)
  show ?case
  proof (cases "s = []")
    case True
    then show ?thesis by (simp add: enc_chars.simps parse_chars.simps(2))
  next
    case False
    with "1.prems" obtain k where k: "utf8_len s = Some k" "valid_utf8 (drop k s)"
      by (auto simp: valid_utf8.simps [of s] split: option.splits)
    with 1 False have "parse_chars (enc_chars (drop k s) @ CHR 0x22 # r) = Some (drop k s, r)"
      by blast
    moreover have "enc_chars s = enc_rune (take k s) @ enc_chars (drop k s)"
      using False k by (subst enc_chars.simps) simp
    ultimately show ?thesis
      using parse_rune [OF k(1)] by simp
  qed
qed

subsection \<open>Numbers\<close>

lemma show_nat_zero: "hd (show_nat n) = CHR ''0'' \<longleftrightarrow> n = 0"
proof (induction n rule: show_nat.induct)
  case (1 n)
  show ?case
  proof (cases "n < 10")
    case True
    then have "hd (show_nat n) = digit_char n" by (simp add: show_nat.simps)
    moreover have "digit_char n = CHR ''0'' \<longleftrightarrow> n = 0"
    proof -
      have "cd (digit_char n) = 48 + n" using True by (simp add: digit_char_def)
      moreover have "cd (CHR ''0'') = 48" by simp
      ultimately show ?thesis by (metis add_cancel_left_right cd_inject)
    qed
    ultimately show ?thesis by simp
  next
    case False
    then have "show_nat n = show_nat (n div 10) @ [digit_char (n mod 10)]"
      by (subst show_nat.simps) simp
    with 1 False show ?thesis by (simp add: hd_append div_eq_0_iff)
  qed
qed

lemma digits_show: "\<not> is_digit c \<Longrightarrow> digits (show_nat n @ c # r) = (show_nat n, c # r)"
  by (simp add: digits_def takeWhile_append dropWhile_append show_nat_digits)

lemma parse_rest: "c \<in> {CHR '','', CHR ''}''} \<Longrightarrow> parse_frac (c # r) = Some ([], c # r) \<and> parse_exp (c # r) = Some ([], c # r)"
  by (auto simp: parse_frac_def parse_exp_def)

lemma parse_show_nat:
  assumes "c \<in> {CHR '','', CHR ''}''}"
  shows "parse_number (show_nat n @ c # r) = Some (show_nat n, c # r)"
proof -
  obtain d ds where s: "show_nat n = d # ds"
    using show_nat_not_Nil [of n] by (cases "show_nat n") auto
  have d: "is_digit d" using show_nat_digits [of d n] s by simp
  then have "d \<noteq> CHR ''-''" by (auto simp: is_digit_def)
  moreover have "ds = []" if "d = CHR ''0''"
  proof -
    from that s have "n = 0" using show_nat_zero [of n] by simp
    with s show ?thesis by (simp add: show_nat.simps)
  qed
  moreover have "\<not> is_digit c" using assms by (auto simp: is_digit_def)
  then have "digits (d # ds @ c # r) = (d # ds, c # r)"
    using digits_show [of c n r] s by simp
  ultimately show ?thesis
    using parse_rest [OF assms, of r] s by (auto simp: parse_number_def Let_def)
qed

lemma parse_minus:
  "parse_number (show_nat n @ t) = Some (show_nat n, u) \<Longrightarrow>
     parse_number (CHR ''-'' # show_nat n @ t) = Some (CHR ''-'' # show_nat n, u)"
proof -
  assume p: "parse_number (show_nat n @ t) = Some (show_nat n, u)"
  obtain d ds where s: "show_nat n = d # ds"
    using show_nat_not_Nil [of n] by (cases "show_nat n") auto
  have "is_digit d" using show_nat_digits [of d n] s by simp
  then have "d \<noteq> CHR ''-''" by (auto simp: is_digit_def)
  with p s show ?thesis
    by (auto simp: parse_number_def Let_def split: if_splits prod.splits option.splits)
qed

lemma parse_Itoa:
  "c \<in> {CHR '','', CHR ''}''} \<Longrightarrow> parse_number (Itoa n @ c # r) = Some (Itoa n, c # r)"
  using parse_show_nat parse_minus by (auto simp: Itoa_def)

subsection \<open>Objects\<close>

text \<open>The values a head has: valid strings, and the texts of numbers.\<close>

fun flat :: "json_value \<Rightarrow> bool" where
  "flat (JStr s) = valid_utf8 s"
| "flat (JNum n) = (\<exists>i. n = Itoa i)"
| "flat _ = False"

lemma flat_numbers: "flat (JNum (show_nat n))" "flat (JNum (Itoa i))"
proof -
  have "show_nat n = Itoa (int n)" by (simp add: Itoa_def)
  then show "flat (JNum (show_nat n))" "flat (JNum (Itoa i))" unfolding flat.simps by blast+
qed

lemma skip_ws_simps [simp]:
  "skip_ws [] = []"
  "c \<notin> {CHR '' '', CHR 0x09, CHR 0x0A, CHR 0x0D} \<Longrightarrow> skip_ws (c # s) = c # s"
  by (simp_all add: skip_ws_def)

lemma parse_enc_string: "valid_utf8 s \<Longrightarrow> parse_chars (tl (enc_string s) @ r) = Some (s, r)"
  by (simp add: enc_string_def parse_enc_chars)

lemma Itoa_hd: "hd (Itoa n) = CHR ''-'' \<or> is_digit (hd (Itoa n))"
  using Itoa_chars [of "hd (Itoa n)" n] by auto

lemma parse_flat:
  assumes "flat v" "c \<in> {CHR '','', CHR ''}''}"
  shows "parse_value (Suc n) (enc_flat v @ c # r) = Some (v, c # r)"
proof (cases v)
  case (JStr s)
  with assms show ?thesis
    using parse_enc_string [of s "c # r"] by (simp add: enc_string_def)
next
  case (JNum t)
  with assms(1) obtain i where t: "t = Itoa i" by auto
  obtain d ds where d: "Itoa i = d # ds"
    using Itoa_not_Nil [of i] by (cases "Itoa i") auto
  with Itoa_hd [of i] have "d = CHR ''-'' \<or> is_digit d" by simp
  then have "d \<notin> {CHR '' '', CHR 0x09, CHR 0x0A, CHR 0x0D, CHR 0x22, CHR ''{'', CHR ''['', CHR ''t'', CHR ''f'', CHR ''n''}"
    by (auto simp: is_digit_def)
  with parse_Itoa [OF assms(2), of i r] d show ?thesis
    by (simp add: JNum t)
qed (use assms in auto)

lemma parse_enc_members:
  assumes "kvs \<noteq> []" "\<forall>(k, v) \<in> set kvs. valid_utf8 k \<and> flat v" "length kvs < n"
  shows "parse_members n (enc_members kvs @ CHR ''}'' # r) = Some (kvs, r)"
  using assms
proof (induction kvs arbitrary: n rule: enc_members.induct)
  case (2 k v)
  then obtain m where n: "n = Suc (Suc m)" by (cases n; cases "n - 1") auto
  with 2 parse_enc_string [of k "CHR '':'' # enc_flat v @ CHR ''}'' # r"] parse_flat [of v "CHR ''}''" m r]
  show ?case by (simp add: enc_string_def del: parse_value.simps)
next
  case (3 k v kv kvs)
  then obtain m where n: "n = Suc (Suc m)" by (cases n; cases "n - 1") auto
  let ?t = "enc_members (kv # kvs) @ CHR ''}'' # r"
  have "parse_members (Suc m) ?t = Some (kv # kvs, r)"
    using "3.prems" n by (intro "3.IH") auto
  with "3.prems" n parse_enc_string [of k "CHR '':'' # enc_flat v @ CHR '','' # ?t"] parse_flat [of v "CHR '',''" m ?t]
  show ?case
    unfolding n by (subst parse_members.simps)
      (simp add: enc_string_def del: parse_value.simps parse_members.simps)
qed simp

lemma length_enc_members: "length kvs \<le> length (enc_members kvs)"
  by (induction kvs rule: enc_members.induct) (simp_all add: enc_string_def)

lemma parse_object:
  assumes "kvs \<noteq> []" "\<forall>(k, v) \<in> set kvs. valid_utf8 k \<and> flat v" "length kvs < n"
  shows "parse_value (Suc n) (CHR ''{'' # enc_members kvs @ CHR ''}'' # r) = Some (JObj kvs, r)"
proof -
  obtain t where "enc_members kvs = CHR 0x22 # t"
    using assms(1) by (cases kvs rule: enc_members.cases) (auto simp: enc_string_def)
  with parse_enc_members [OF assms, of r] show ?thesis by simp
qed

subsection \<open>Heads\<close>

definition json_good :: "easy_head \<Rightarrow> bool" where
  "json_good h \<longleftrightarrow> in_i64 (hRet h) \<and>
     list_all valid_utf8 [hService h, hMethod h, hRouteKey h, hToken h, hRequestIp h, hTraceId h, hMsg h]"

lemma bytes_roundtrip: "of_bytes (to_bytes s) = s"
  by (induction s) (simp_all add: of_bytes_def to_bytes_def unat_of_nat)

lemma names_valid: "\<forall>(k, v) \<in> set (head_members h). valid_utf8 k"
  unfolding head_members_def by (simp; code_simp)

lemma fold_names:
  "fold_case ''service'' = ''service''" "fold_case ''method'' = ''method''"
  "fold_case ''routeKey'' = ''routekey''" "fold_case ''token'' = ''token''" "fold_case ''uid'' = ''uid''"
  "fold_case ''requestIp'' = ''requestip''" "fold_case ''traceId'' = ''traceid''"
  "fold_case ''seq'' = ''seq''" "fold_case ''ret'' = ''ret''" "fold_case ''msg'' = ''msg''"
  by code_simp+

lemma set_head_members:
  assumes "in_i64 (hRet h)"
  shows "set_members set_member (head_members h) True NewEasyHead = Inr h"
proof -
  have u: "ParseUint (show_nat (unat w)) = (unat w, None)" for w :: uint64
  proof (rule ParseUint_show)
    have "unat w < 2 ^ LENGTH(64)" by (rule unsigned_less)
    then show "unat w \<le> max_uint64" by (simp add: max_uint64_def)
  qed
  show ?thesis
    using assms
    by (simp add: head_members_def set_member_def set_text_def set_uint_def set_int_def u ParseInt_Itoa
        NewEasyHead_def fold_names del: fold_case.simps)
qed

interpretation json_head: head_codec json_enc_head json_dec_head json_good
proof
  fix h hb
  assume good: "json_good h" and e: "json_enc_head h = Inr hb"
  let ?s = "CHR ''{'' # enc_members (head_members h) @ CHR ''}'' # [CHR 0x0A]"
  have "\<forall>(k, v) \<in> set (head_members h). flat v"
    using good by (simp add: head_members_def json_good_def flat_numbers del: flat.simps(2))
  with names_valid have "\<forall>(k, v) \<in> set (head_members h). valid_utf8 k \<and> flat v" by blast
  moreover have "length (head_members h) < length ?s"
    using length_enc_members [of "head_members h"] by simp
  ultimately have "parse_value (Suc (length ?s)) ?s = Some (JObj (head_members h), [CHR 0x0A])"
    by (intro parse_object) (simp_all add: head_members_def)
  moreover from e have "of_bytes hb = ?s"
    by (auto simp: json_enc_head_def bytes_roundtrip)
  ultimately show "json_dec_head hb = Inr h"
    using set_head_members good by (simp add: json_dec_head_def json_good_def del: parse_value.simps)
qed (simp add: json_enc_head_def)

section \<open>Properties\<close>

text \<open>Any serialiser of bodies, with the JSON serialiser of heads.\<close>

definition with_json :: "'b codecs \<Rightarrow> 'b codecs" where
  "with_json cs = cs\<lparr>json := (json cs)\<lparr>enc_head := json_enc_head, dec_head := json_dec_head\<rparr>\<rparr>"

lemma json_package_frame:
  assumes "pFormat pkg = FORMAT_JSON" "json_good (pHead pkg)"
    and "EncodeWithBodyData (with_json cs) pkg = Inr d" "length d \<le> 2 ^ 32"
  shows "DecodeWithBodyData (with_json cs) d = Ret (Inr (pkg\<lparr>pPkgData := Some d, pBody := None\<rparr>))"
  by (rule json_head.package_roundtrip)
     (use assms in \<open>simp_all add: with_json_def codec_of.simps\<close>)

text \<open>
  C11: a JSON package with text in valid UTF-8, of at most 4 GiB, is decoded from its frame to the
  same head, format and body data, whatever the texts contain (quotes, controls, non-ASCII).
\<close>

theorem json_package_roundtrip:
  assumes "pFormat pkg = FORMAT_JSON" "json_good (pHead pkg)"
    and "EncodeWithBodyData (with_json cs) pkg = Inr d" "length d \<le> 2 ^ 32"
  shows "DecodeWithBodyData (with_json cs) d = Ret (Inr (pkg\<lparr>pPkgData := Some d, pBody := None\<rparr>))"
  by (rule json_package_frame [OF assms])

text \<open>The same for a package encoded from its body value.\<close>

lemma json_body_roundtrip:
  assumes "pFormat pkg = FORMAT_JSON" "json_good (pHead pkg)"
    and "EncodeWithBody (with_json cs) pkg = Inr d" "length d \<le> 2 ^ 32"
    and "enc_body (json cs) (pBody pkg) = Inr bb"
  shows "DecodeWithBodyData (with_json cs) d =
    Ret (Inr (pkg\<lparr>pBodyData := bb, pPkgData := Some d, pBody := None\<rparr>))"
  by (rule json_head.package_body_roundtrip)
     (use assms in \<open>simp_all add: with_json_def codec_of.simps\<close>)

section \<open>Witnesses\<close>

definition sample_codec :: "nat codec" where
  "sample_codec = \<lparr>enc_head = json_enc_head, dec_head = json_dec_head,
     enc_body = (\<lambda>b. Inr (case b of None \<Rightarrow> [] | Some n \<Rightarrow> [of_nat n])),
     dec_body = (\<lambda>d. case d of [b] \<Rightarrow> Inr (unat b) | _ \<Rightarrow> Inl ''EOF''),
     dec_by_value = (\<lambda>d. case d of [b] \<Rightarrow> Inr (unat b) | _ \<Rightarrow> Inl ''EOF'')\<rparr>"

definition sample_codecs :: "nat codecs" where
  "sample_codecs = \<lparr>json = sample_codec, msgpack = sample_codec\<rparr>"

definition sample_head :: easy_head where
  "sample_head = \<lparr>hService = ''profile'', hMethod = ''a<b'', hRouteKey = [char_of (195::nat), char_of (164::nat)],
     hToken = [CHR 0x22, CHR 0x0A], hUid = 3, hRequestIp = '''', hTraceId = '''', hSeq = 7, hRet = - 5, hMsg = ''''\<rparr>"

lemma sample_head_good: "json_good sample_head"
  by code_simp

lemma sample_head_size:
  "\<exists>hb. json_enc_head sample_head = Inr hb \<and> length hb \<le> 1000"
proof -
  have "length (to_bytes ([CHR ''{''] @ enc_members (head_members sample_head) @ [CHR ''}'', CHR 0x0A])) \<le> 1000"
    by code_simp
  then show ?thesis by (simp add: json_enc_head_def)
qed

definition sample_request :: "nat easy_package" where
  "sample_request = NewPackageWithBodyData FORMAT_JSON sample_head [1, 2]"

lemma sample_request_encodes:
  "\<exists>d. EncodeWithBodyData (with_json sample_codecs) sample_request = Inr d \<and> length d \<le> 2 ^ 32"
  using sample_head_size
  by (auto simp: EncodeWithBodyData_eq with_json_def codec_of.simps NewPackageWithBodyData_def
      length_frame sample_request_def)

lemma sample_request_simps [simp]:
  "pFormat sample_request = FORMAT_JSON" "pHead sample_request = sample_head" "pBodyData sample_request = [1, 2]"
  by (simp_all add: sample_request_def NewPackageWithBodyData_def)

lemma json_package_roundtrip_witness:
  "\<exists>d. EncodeWithBodyData (with_json sample_codecs) sample_request = Inr d \<and>
     DecodeWithBodyData (with_json sample_codecs) d = Ret (Inr (sample_request\<lparr>pPkgData := Some d, pBody := None\<rparr>))"
  using json_package_roundtrip [of sample_request sample_codecs] sample_request_encodes sample_head_good
  by auto

end
