(* ===== verification/Middleware.thy ===== *)
theory Middleware
  imports Go_Prelude
begin

text \<open>
  Middleware chains (\<open>service_context.go\<close>, \<open>gateway_handler.go\<close>, \<open>http_handler.go\<close>). The
  three have the same shape: a slice of infos, each with a function and a pointer \<open>Next\<close>, which
  \<open>AddMiddleware\<close> sets in the info before. Infos are referred to by position in the list in
  which they were allocated. The locale \<open>middleware_owner\<close> is what an owner of a chain
  promises; in it the pointers are shown to amount to the composition of the functions.
\<close>

section \<open>Running a chain\<close>

text \<open>A run of user code: it returns, panics or never ends, and what it did before stays done.\<close>

datatype 's run = Done 's | Panicked panic 's | Blocked 's

fun final_state :: "'s run \<Rightarrow> 's" where
  "final_state (Done s) = s"
| "final_state (Panicked p s) = s"
| "final_state (Blocked s) = s"

fun then_run :: "'s run \<Rightarrow> ('s \<Rightarrow> 's run) \<Rightarrow> 's run" where
  "then_run (Done s) f = f s"
| "then_run (Panicked p s) f = Panicked p s"
| "then_run (Blocked s) f = Blocked s"

text \<open>
  A middleware gets its successor as the call \<open>next.Middleware(\<dots>, next.Next)\<close>, or \<open>None\<close> when
  \<open>next\<close> is nil.
\<close>

type_synonym 's mw = "('s \<Rightarrow> 's run) option \<Rightarrow> 's \<Rightarrow> 's run"

record 's mw_info =
  miFunc :: "'s mw"
  miNext :: "nat option"

text \<open>Calling the info at position \<open>i\<close>; the first argument bounds the depth of the stack.\<close>

fun invoke :: "nat \<Rightarrow> 's mw_info list \<Rightarrow> nat \<Rightarrow> 's \<Rightarrow> 's run" where
  "invoke 0 c i s = Panicked StackOverflow s"
| "invoke (Suc n) c i s =
     (if i < length c then
        miFunc (c ! i) (case miNext (c ! i) of None \<Rightarrow> None | Some j \<Rightarrow> Some (invoke n c j)) s
      else Panicked NilDeref s)"

text \<open>The functions alone, applied to one another.\<close>

fun compose :: "'s mw list \<Rightarrow> ('s \<Rightarrow> 's run) option" where
  "compose [] = None"
| "compose (f # fs) = Some (f (compose fs))"

definition linked :: "'s mw_info list \<Rightarrow> bool" where
  "linked c \<longleftrightarrow> (\<forall>i < length c. miNext (c ! i) = (if Suc i < length c then Some (Suc i) else None))"

lemma linked_Nil [simp]: "linked []"
  by (simp add: linked_def)

lemma invoke_linked:
  assumes "linked c"
  shows "i < length c \<Longrightarrow> length c - i \<le> n \<Longrightarrow> Some (invoke n c i) = compose (map miFunc (drop i c))"
proof (induction n arbitrary: i)
  case (Suc n)
  from Suc.prems have d: "drop i c = c ! i # drop (Suc i) c"
    by (simp add: Cons_nth_drop_Suc)
  show ?case
  proof (cases "Suc i < length c")
    case True
    with Suc have "Some (invoke n c (Suc i)) = compose (map miFunc (drop (Suc i) c))" by simp
    with True Suc.prems assms d show ?thesis
      by (simp add: linked_def fun_eq_iff)
  next
    case False
    with Suc.prems assms d show ?thesis
      by (simp add: linked_def fun_eq_iff)
  qed
qed simp

section \<open>The contract of an owner\<close>

locale middleware_owner =
  fixes add :: "'s mw \<Rightarrow> 'h \<Rightarrow> 'h"
    and chain :: "'h \<Rightarrow> 's mw_info list"
  assumes add_linked: "linked (chain h) \<Longrightarrow> linked (chain (add f h))"
    and add_funcs: "map miFunc (chain (add f h)) = map miFunc (chain h) @ [f]"
begin

lemma fold_add:
  "linked (chain h) \<Longrightarrow> linked (chain (fold add fs h)) \<and> map miFunc (chain (fold add fs h)) = map miFunc (chain h) @ fs"
  by (induction fs arbitrary: h) (simp_all add: add_linked add_funcs)

text \<open>Entering the chain at its first info runs all functions in the order they were added.\<close>

lemma runs_in_order:
  assumes "chain h = []" "fs \<noteq> []"
  shows "Some (invoke (length fs) (chain (fold add fs h)) 0) = compose fs"
proof -
  from fold_add [of h fs] assms(1)
  have l: "linked (chain (fold add fs h))" and f: "map miFunc (chain (fold add fs h)) = fs" by auto
  from f have "length (chain (fold add fs h)) = length fs" by (metis length_map)
  with invoke_linked [OF l, of 0 "length fs"] f assms(2) show ?thesis by simp
qed

end

section \<open>Appending an info\<close>

text \<open>The common body of the three methods, on the slice.\<close>

definition append_info :: "'s mw \<Rightarrow> 's mw_info list \<Rightarrow> 's mw_info list" where
  "append_info middleware list =
     (let minfo = \<lparr>miFunc = middleware, miNext = None\<rparr>; mlen = length list;
          list = (if mlen > 0 then list[mlen - 1 := (list ! (mlen - 1))\<lparr>miNext := Some mlen\<rparr>] else list)
      in list @ [minfo])"

lemma append_info_linked: "linked c \<Longrightarrow> linked (append_info f c)"
  by (auto simp: linked_def append_info_def Let_def nth_append nth_list_update less_Suc_eq)

lemma append_info_funcs: "map miFunc (append_info f c) = map miFunc c @ [f]"
proof (cases c rule: rev_cases)
  case (snoc xs x)
  then show ?thesis by (simp add: append_info_def Let_def)
qed (simp add: append_info_def)

lemma append_info_length [simp]: "length (append_info f c) = Suc (length c)"
  by (simp add: append_info_def Let_def)

section \<open>The gateway's and the HTTP gateway's handlers\<close>

record 's gateway_handler = gwMiddlewares :: "'s mw_info list"

definition NewGatewayHandler :: "'s mw_info list \<Rightarrow> 's gateway_handler" where
  "NewGatewayHandler middlewares = \<lparr>gwMiddlewares = middlewares\<rparr>"

definition GatewayHandler_AddMiddleware :: "'s mw \<Rightarrow> 's gateway_handler \<Rightarrow> 's gateway_handler" where
  "GatewayHandler_AddMiddleware middleware h = h\<lparr>gwMiddlewares := append_info middleware (gwMiddlewares h)\<rparr>"

record 's http_handler = hhMiddlewares :: "'s mw_info list"

definition NewHttpHandler :: "'s mw_info list \<Rightarrow> 's http_handler" where
  "NewHttpHandler middlewares = \<lparr>hhMiddlewares = middlewares\<rparr>"

definition HttpHandler_AddMiddleware :: "'s mw \<Rightarrow> 's http_handler \<Rightarrow> 's http_handler" where
  "HttpHandler_AddMiddleware middleware hh = hh\<lparr>hhMiddlewares := append_info middleware (hhMiddlewares hh)\<rparr>"

definition ServeHTTP :: "'s http_handler \<Rightarrow> 's \<Rightarrow> 's run" where
  "ServeHTTP hh s =
     (if length (hhMiddlewares hh) > 0
      then invoke (length (hhMiddlewares hh)) (hhMiddlewares hh) 0 s
      else Done s)"

interpretation gw: middleware_owner GatewayHandler_AddMiddleware gwMiddlewares
  by unfold_locales (simp_all add: GatewayHandler_AddMiddleware_def append_info_linked append_info_funcs)

interpretation hh: middleware_owner HttpHandler_AddMiddleware hhMiddlewares
  by unfold_locales (simp_all add: HttpHandler_AddMiddleware_def append_info_linked append_info_funcs)

lemma ServeHTTP_empty: "ServeHTTP (NewHttpHandler []) s = Done s"
  by (simp add: ServeHTTP_def NewHttpHandler_def)

lemma ServeHTTP_runs_in_order:
  assumes "fs \<noteq> []"
  shows "compose fs = Some (ServeHTTP (fold HttpHandler_AddMiddleware fs (NewHttpHandler [])))"
proof -
  let ?h = "fold HttpHandler_AddMiddleware fs (NewHttpHandler [])"
  have e: "hhMiddlewares (NewHttpHandler []) = []" by (simp add: NewHttpHandler_def)
  have "map miFunc (hhMiddlewares ?h) = fs" using hh.fold_add [of "NewHttpHandler []" fs] by (auto simp: e)
  then have l: "length (hhMiddlewares ?h) = length fs" by (metis length_map)
  with assms have "hhMiddlewares ?h \<noteq> []" by auto
  with hh.runs_in_order [OF e assms] l show ?thesis
    by (simp add: ServeHTTP_def [abs_def])
qed

end
