(* ===== verification/Service_Handler.thy ===== *)
theory Service_Handler
  imports Easy_Package Json_Head Middleware
begin

text \<open>
  The server's side of a call (\<open>service_handler.go\<close>, \<open>request.go\<close>, \<open>response.go\<close>,
  \<open>error.go\<close>). \<open>Dispatch\<close> decodes a package, hands request and response to the middleware chain,
  whose last function looks the method up by name and sends the reply.

  Heads are shared by pointer: request and response of one package have the same head. So heads
  live in a store and are referred to by address (a nil head, which a service could put in with
  \<open>SetHead(nil)\<close>, is left out). User code is a function on the state of the exchange, which
  has a component \<open>xWorld\<close> for what user code keeps outside of it.
\<close>

section \<open>Errors\<close>

definition ERROR_METHOD_NOT_FOUND :: int where "ERROR_METHOD_NOT_FOUND = 1002"
definition ERROR_SERVICE_NOT_FOUND :: int where "ERROR_SERVICE_NOT_FOUND = 1002"
definition ERROR_INTERNAL_ERROR :: int where "ERROR_INTERNAL_ERROR = 1001"
definition ERROR_TIME_OUT :: int where "ERROR_TIME_OUT = 1003"
definition ERROR_MAX_SYSTEM_CODE :: int where "ERROR_MAX_SYSTEM_CODE = 2000"

lemmas error_codes = ERROR_METHOD_NOT_FOUND_def ERROR_SERVICE_NOT_FOUND_def ERROR_INTERNAL_ERROR_def
  ERROR_TIME_OUT_def ERROR_MAX_SYSTEM_CODE_def

record logic_error =
  leRet :: int
  leMsg :: string

definition NewLogicError :: "int \<Rightarrow> string \<Rightarrow> logic_error" where
  "NewLogicError ret msg = \<lparr>leRet = ret, leMsg = msg\<rparr>"

definition LogicError_Error :: "logic_error \<Rightarrow> string" where
  "LogicError_Error e = ''Ret='' @ Itoa (leRet e) @ '',Msg='' @ leMsg e"

definition LogicError_GetRet :: "logic_error \<Rightarrow> int" where "LogicError_GetRet e = leRet e"
definition LogicError_GetMsg :: "logic_error \<Rightarrow> string" where "LogicError_GetMsg e = leMsg e"

record system_error =
  seRet :: int
  seMsg :: string

definition NewSystemError :: "int \<Rightarrow> string \<Rightarrow> system_error" where
  "NewSystemError ret msg = \<lparr>seRet = ret, seMsg = msg\<rparr>"

definition SystemError_Error :: "system_error \<Rightarrow> string" where
  "SystemError_Error e = ''Ret='' @ Itoa (seRet e) @ '',Msg='' @ seMsg e"

definition SystemError_GetRet :: "system_error \<Rightarrow> int" where "SystemError_GetRet e = seRet e"
definition SystemError_GetMsg :: "system_error \<Rightarrow> string" where "SystemError_GetMsg e = seMsg e"

section \<open>Requests and responses\<close>

type_synonym head_ref = nat

record 'x request =
  rqFormat :: byte
  rqHead :: head_ref
  rqBodyData :: "byte list"
  rqCreateTime :: int
  rqExt :: "string \<rightharpoonup> 'x"

definition Request_GetBody :: "'b codecs \<Rightarrow> 'x request \<Rightarrow> go_error + 'b" where
  "Request_GetBody cs r =
     (if rqFormat r = FORMAT_MSGPACK then dec_body (msgpack cs) (rqBodyData r)
      else if rqFormat r = FORMAT_JSON then dec_body (json cs) (rqBodyData r)
      else Inl ''invalid package format'')"

definition Request_GetBodyData :: "'x request \<Rightarrow> byte list" where "Request_GetBodyData r = rqBodyData r"
definition Request_GetHead :: "'x request \<Rightarrow> head_ref" where "Request_GetHead r = rqHead r"
definition Request_GetCreateTime :: "'x request \<Rightarrow> int" where "Request_GetCreateTime r = rqCreateTime r"
definition Request_GetFormat :: "'x request \<Rightarrow> byte" where "Request_GetFormat r = rqFormat r"
definition Request_GetExt :: "'x request \<Rightarrow> (string \<rightharpoonup> 'x)" where "Request_GetExt r = rqExt r"
definition Request_GetExtValue :: "string \<Rightarrow> 'x request \<Rightarrow> 'x option" where
  "Request_GetExtValue key r = rqExt r key"
definition Request_SetExtValue :: "string \<Rightarrow> 'x \<Rightarrow> 'x request \<Rightarrow> 'x request" where
  "Request_SetExtValue key v r = r\<lparr>rqExt := (rqExt r)(key \<mapsto> v)\<rparr>"

record 'b response =
  rsFormat :: byte
  rsHead :: head_ref
  rsBody :: "'b option"

definition Response_GetBody :: "'b response \<Rightarrow> 'b option" where "Response_GetBody r = rsBody r"
definition Response_GetHead :: "'b response \<Rightarrow> head_ref" where "Response_GetHead r = rsHead r"
definition Response_GetFormat :: "'b response \<Rightarrow> byte" where "Response_GetFormat r = rsFormat r"
definition Response_SetBody :: "'b option \<Rightarrow> 'b response \<Rightarrow> 'b response" where
  "Response_SetBody body r = r\<lparr>rsBody := body\<rparr>"
definition Response_SetHead :: "head_ref \<Rightarrow> 'b response \<Rightarrow> 'b response" where
  "Response_SetHead head r = r\<lparr>rsHead := head\<rparr>"
definition Response_SetFormat :: "byte \<Rightarrow> 'b response \<Rightarrow> 'b response" where
  "Response_SetFormat fmt r = r\<lparr>rsFormat := fmt\<rparr>"

section \<open>The state of one exchange\<close>

text \<open>\<open>xSent\<close> are the packages given to \<open>client.Send\<close>, in order.\<close>

record ('b, 'x, 'w) exchange =
  xHeads :: "head_ref \<Rightarrow> easy_head"
  xReq :: "'x request"
  xResp :: "'b response"
  xSent :: "byte list list"
  xWorld :: 'w

definition SendPkg :: "byte list \<Rightarrow> ('b, 'x, 'w) exchange \<Rightarrow> ('b, 'x, 'w) exchange" where
  "SendPkg d e = e\<lparr>xSent := xSent e @ [d]\<rparr>"

definition upd_head :: "head_ref \<Rightarrow> (easy_head \<Rightarrow> easy_head) \<Rightarrow> ('b, 'x, 'w) exchange \<Rightarrow> ('b, 'x, 'w) exchange" where
  "upd_head a f e = e\<lparr>xHeads := (xHeads e)(a := f (xHeads e a))\<rparr>"

definition req_head :: "('b, 'x, 'w) exchange \<Rightarrow> easy_head" where
  "req_head e = xHeads e (rqHead (xReq e))"

definition resp_head :: "('b, 'x, 'w) exchange \<Rightarrow> easy_head" where
  "resp_head e = xHeads e (rsHead (xResp e))"

type_synonym ('b, 'x, 'w) ex_run = "('b, 'x, 'w) exchange run"
type_synonym ('b, 'x, 'w) ex_mw = "('b, 'x, 'w) exchange mw"

text \<open>The exported methods of the service object, by name: what \<open>reflect\<close> finds.\<close>

type_synonym ('b, 'x, 'w) service = "string \<Rightarrow> (('b, 'x, 'w) exchange \<Rightarrow> ('b, 'x, 'w) ex_run) option"

section \<open>ServiceHandler\<close>

definition send_encoded :: "'b codecs \<Rightarrow> 'b easy_package \<Rightarrow> ('b, 'x, 'w) exchange \<Rightarrow> ('b, 'x, 'w) exchange" where
  "send_encoded cs respPkg e =
     (case EncodeWithBody cs respPkg of Inl err \<Rightarrow> e | Inr pkgData \<Rightarrow> SendPkg pkgData e)"

text \<open>\<open>noBody\<close> is the value \<open>make(map[string]interface{})\<close>.\<close>

definition onRequest :: "'b codecs \<Rightarrow> 'b \<Rightarrow> ('b, 'x, 'w) service \<Rightarrow> ('b, 'x, 'w) exchange \<Rightarrow> ('b, 'x, 'w) ex_run" where
  "onRequest cs noBody service e =
     (let method = hMethod (req_head e) in
      case service method of
        None \<Rightarrow>
          (let e = upd_head (rqHead (xReq e)) (SetRet ERROR_METHOD_NOT_FOUND) e;
               e = upd_head (rqHead (xReq e)) (SetMsg (''method '' @ method @ '' not found'')) e;
               respPkg = NewPackageWithBody (rqFormat (xReq e)) (req_head e) (Some noBody)
           in Done (send_encoded cs respPkg e))
      | Some m \<Rightarrow>
          then_run (m e) (\<lambda>e.
            let respPkg = NewPackageWithBody (rsFormat (xResp e)) (resp_head e) (rsBody (xResp e))
            in Done (send_encoded cs respPkg e)))"

text \<open>
  The handler's slice is entered only at its first info; \<open>shInfos\<close> are the infos that can be
  reached from there, among them the final one, which is linked behind the last info of the
  chain (and is the slice's only info when the chain is empty).
\<close>

record ('b, 'x, 'w) service_handler =
  shInfos :: "('b, 'x, 'w) exchange mw_info list"

definition finalFunc :: "'b codecs \<Rightarrow> 'b \<Rightarrow> ('b, 'x, 'w) service \<Rightarrow> ('b, 'x, 'w) ex_mw" where
  "finalFunc cs noBody service = (\<lambda>next e. onRequest cs noBody service e)"

definition NewServiceHandler ::
    "'b codecs \<Rightarrow> 'b \<Rightarrow> ('b, 'x, 'w) service \<Rightarrow> ('b, 'x, 'w) exchange mw_info list \<Rightarrow> ('b, 'x, 'w) service_handler" where
  "NewServiceHandler cs noBody service middlewares =
     (let mlen = length middlewares;
          final = \<lparr>miFunc = finalFunc cs noBody service, miNext = None\<rparr>
      in if mlen > 0
         then \<lparr>shInfos = middlewares[mlen - 1 := (middlewares ! (mlen - 1))\<lparr>miNext := Some mlen\<rparr>] @ [final]\<rparr>
         else \<lparr>shInfos = middlewares @ [final]\<rparr>)"

definition new_exchange :: "'b easy_package \<Rightarrow> int \<Rightarrow> 'w \<Rightarrow> ('b, 'x, 'w) exchange" where
  "new_exchange reqPkg now world =
     \<lparr>xHeads = (\<lambda>_. GetHead reqPkg),
      xReq = \<lparr>rqFormat = GetFormat reqPkg, rqHead = 0, rqBodyData = GetBodyData reqPkg, rqCreateTime = now,
              rqExt = Map.empty\<rparr>,
      xResp = \<lparr>rsFormat = GetFormat reqPkg, rsHead = 0, rsBody = None\<rparr>,
      xSent = [], xWorld = world\<rparr>"

text \<open>
  The submitted function, on a goroutine of the pool; \<open>PanicHandler\<close> stops every panic. Its
  result is the packages sent and the world; \<open>submitted\<close> says whether the pool took the function.
\<close>

definition handle_package ::
    "'b codecs \<Rightarrow> ('b, 'x, 'w) service_handler \<Rightarrow> byte list \<Rightarrow> int \<Rightarrow> 'w \<Rightarrow> ('b, 'x, 'w) ex_run outcome option" where
  "handle_package cs h pkgData now world =
     (case DecodeWithBodyData cs pkgData of
        Panic p \<Rightarrow> Some (Panic p)
      | Ret (Inl err) \<Rightarrow> None
      | Ret (Inr reqPkg) \<Rightarrow>
          Some (Ret (invoke (length (shInfos h)) (shInfos h) 0 (new_exchange reqPkg now world))))"

definition Dispatch ::
    "'b codecs \<Rightarrow> ('b, 'x, 'w) service_handler \<Rightarrow> bool \<Rightarrow> byte list \<Rightarrow> int \<Rightarrow> 'w \<Rightarrow> byte list list \<times> 'w" where
  "Dispatch cs h submitted pkgData now world =
     (if submitted then
        (case handle_package cs h pkgData now world of
           Some (Ret r) \<Rightarrow> (xSent (final_state r), xWorld (final_state r))
         | _ \<Rightarrow> ([], world))
      else ([], world))"

section \<open>The chain ends in the service\<close>

lemma NewServiceHandler_append:
  "NewServiceHandler cs noBody service mws = \<lparr>shInfos = append_info (finalFunc cs noBody service) mws\<rparr>"
  by (simp add: NewServiceHandler_def append_info_def Let_def)

lemma handler_chain:
  assumes "linked mws"
  shows "Some (invoke (length (shInfos (NewServiceHandler cs noBody service mws)))
                 (shInfos (NewServiceHandler cs noBody service mws)) 0) =
         compose (map miFunc mws @ [finalFunc cs noBody service])"
  using invoke_linked [OF append_info_linked [OF assms, of "finalFunc cs noBody service"], of 0 "Suc (length mws)"]
  by (simp add: NewServiceHandler_append append_info_funcs append_info_length)

lemma plain_handler:
  "invoke (length (shInfos (NewServiceHandler cs noBody service []))) (shInfos (NewServiceHandler cs noBody service [])) 0
     = onRequest cs noBody service"
  using handler_chain [OF linked_Nil, of cs noBody service] by (simp add: finalFunc_def fun_eq_iff)

lemma new_exchange_simps [simp]:
  "req_head (new_exchange p now w) = pHead p" "resp_head (new_exchange p now w) = pHead p"
  "rqFormat (xReq (new_exchange p now w)) = pFormat p" "rsFormat (xResp (new_exchange p now w)) = pFormat p"
  "rqHead (xReq (new_exchange p now w)) = 0" "rsHead (xResp (new_exchange p now w)) = 0"
  "xSent (new_exchange p now w) = []" "xWorld (new_exchange p now w) = w"
  by (simp_all add: new_exchange_def req_head_def resp_head_def pkg_accessors)

lemma upd_head_simps [simp]:
  "xReq (upd_head a f e) = xReq e" "xResp (upd_head a f e) = xResp e" "xSent (upd_head a f e) = xSent e"
  "xWorld (upd_head a f e) = xWorld e"
  "rqHead (xReq e) = a \<Longrightarrow> req_head (upd_head a f e) = f (req_head e)"
  by (simp_all add: upd_head_def req_head_def)

text \<open>What a dispatch of a decodable package does when there is no middleware.\<close>

lemma Dispatch_plain:
  assumes "DecodeWithBodyData cs d = Ret (Inr reqPkg)"
  shows "Dispatch cs (NewServiceHandler cs noBody service []) True d now w =
    (let e = final_state (onRequest cs noBody service (new_exchange reqPkg now w)) in (xSent e, xWorld e))"
  using assms by (simp add: Dispatch_def handle_package_def plain_handler Let_def)

lemma onRequest_found:
  assumes "service (hMethod (req_head e0)) = Some m" "m e0 = Done e"
  shows "onRequest cs noBody service e0 =
    Done (send_encoded cs (NewPackageWithBody (rsFormat (xResp e)) (resp_head e) (rsBody (xResp e))) e)"
  using assms by (simp add: onRequest_def)

text \<open>What a client decodes from a reply in JSON.\<close>

lemma send_json:
  assumes "pFormat p = FORMAT_JSON" "json_good (pHead p)" "json_enc_head (pHead p) = Inr hb"
    and "enc_body (json cs) (pBody p) = Inr bb" "length hb + length bb + 11 \<le> 2 ^ 32"
  obtains d where "d = frame FORMAT_JSON hb bb" "send_encoded (with_json cs) p e = SendPkg d e"
    and "DecodeWithBodyData (with_json cs) d =
           Ret (Inr (p\<lparr>pBodyData := bb, pPkgData := Some d, pBody := None\<rparr>))"
proof -
  have d: "EncodeWithBody (with_json cs) p = Inr (frame FORMAT_JSON hb bb)"
    using assms by (simp add: EncodeWithBody_Inr_conv codec_of.simps with_json_def)
  have l: "length (frame FORMAT_JSON hb bb) \<le> 2 ^ 32"
    using assms(5) by (simp add: length_frame)
  show ?thesis
    by (rule that [of "frame FORMAT_JSON hb bb"])
       (use d json_body_roundtrip [OF assms(1,2) d l assms(4)] in \<open>auto simp: send_encoded_def\<close>)
qed

section \<open>Replies\<close>

lemma json_reply_frame:
  assumes "pFormat req = FORMAT_JSON" "json_good (pHead req)"
    and "EncodeWithBodyData (with_json cs) req = Inr d" "length d \<le> 2 ^ 32"
    and "onRequest (with_json cs) noBody service (new_exchange (req\<lparr>pPkgData := Some d, pBody := None\<rparr>) now w) =
           Done (send_encoded (with_json cs) (NewPackageWithBody FORMAT_JSON h b) e)"
    and "xSent e = []" "json_good h" "json_enc_head h = Inr hb"
    and "enc_body (json cs) b = Inr bb" "length hb + length bb + 11 \<le> 2 ^ 32"
  shows "\<exists>d' p. d' = frame FORMAT_JSON hb bb \<and> Dispatch (with_json cs) (NewServiceHandler (with_json cs) noBody service []) True d now w = ([d'], xWorld e) \<and>
    DecodeWithBodyData (with_json cs) d' = Ret (Inr p) \<and>
    GetHead p = h \<and> GetBodyData p = bb \<and> GetFormat p = FORMAT_JSON"
proof -
  let ?reply = "NewPackageWithBody FORMAT_JSON h b :: 'a easy_package"
  obtain d' where d': "d' = frame FORMAT_JSON hb bb" "send_encoded (with_json cs) ?reply e = SendPkg d' e"
    and dec: "DecodeWithBodyData (with_json cs) d' =
       Ret (Inr (?reply\<lparr>pBodyData := bb, pPkgData := Some d', pBody := None\<rparr>))"
    using send_json [of ?reply hb cs bb e] assms(7-10) by (auto simp: pkg_accessors)
  have "Dispatch (with_json cs) (NewServiceHandler (with_json cs) noBody service []) True d now w = ([d'], xWorld e)"
    using Dispatch_plain [OF json_package_frame [OF assms(1-4)], of noBody service now w] assms(5,6) d'
    by (simp add: SendPkg_def)
  with dec d'(1) show ?thesis by (auto simp: pkg_accessors)
qed

lemma json_reply:
  assumes "pFormat req = FORMAT_JSON" "json_good (pHead req)"
    and "EncodeWithBodyData (with_json cs) req = Inr d" "length d \<le> 2 ^ 32"
    and "onRequest (with_json cs) noBody service (new_exchange (req\<lparr>pPkgData := Some d, pBody := None\<rparr>) now w) =
           Done (send_encoded (with_json cs) (NewPackageWithBody FORMAT_JSON h b) e)"
    and "xSent e = []" "json_good h" "json_enc_head h = Inr hb"
    and "enc_body (json cs) b = Inr bb" "length hb + length bb + 11 \<le> 2 ^ 32"
  shows "\<exists>d' p. Dispatch (with_json cs) (NewServiceHandler (with_json cs) noBody service []) True d now w = ([d'], xWorld e) \<and>
    DecodeWithBodyData (with_json cs) d' = Ret (Inr p) \<and>
    GetHead p = h \<and> GetBodyData p = bb \<and> GetFormat p = FORMAT_JSON"
  using json_reply_frame [OF assms] by blast

text \<open>
  C5: a JSON request for a method that returns is answered by exactly one package, which decodes to
  the head the method left in the response (the request's own head, so its sequence number, unless
  the method replaced it) and to the body it set.
\<close>

theorem service_answers_request:
  assumes "pFormat req = FORMAT_JSON" "json_good (pHead req)"
    and "EncodeWithBodyData (with_json cs) req = Inr d" "length d \<le> 2 ^ 32"
    and "service (hMethod (pHead req)) = Some m"
    and "m (new_exchange (req\<lparr>pPkgData := Some d, pBody := None\<rparr>) now w) = Done e" "xSent e = []"
    and "rsFormat (xResp e) = FORMAT_JSON" "json_good (resp_head e)" "json_enc_head (resp_head e) = Inr hb"
    and "enc_body (json cs) (rsBody (xResp e)) = Inr bb" "length hb + length bb + 11 \<le> 2 ^ 32"
  shows "\<exists>d' p. Dispatch (with_json cs) (NewServiceHandler (with_json cs) noBody service []) True d now w = ([d'], xWorld e) \<and>
    DecodeWithBodyData (with_json cs) d' = Ret (Inr p) \<and>
    GetHead p = resp_head e \<and> GetBodyData p = bb \<and> GetFormat p = FORMAT_JSON"
  using assms(5,6,8) onRequest_found [of service _ m e "with_json cs" noBody]
  by (intro json_reply [OF assms(1-4) _ assms(7,9-12)]) simp


text \<open>
  A method that panics leaves its caller without a reply: the panic is stopped, nothing is sent,
  and what the method did to the service's own state stays.
\<close>

theorem panicking_method_no_reply:
  assumes "DecodeWithBodyData cs d = Ret (Inr req)" "service (hMethod (pHead req)) = Some m"
    and "m (new_exchange req now w) = Panicked p e" "xSent e = []"
  shows "Dispatch cs (NewServiceHandler cs noBody service []) True d now w = ([], xWorld e)"
  using assms by (simp add: Dispatch_plain onRequest_def)

text \<open>A package that cannot be decoded, or that the goroutine pool refuses, has no effect.\<close>

lemma Dispatch_ignored:
  "\<forall>req. DecodeWithBodyData cs d \<noteq> Ret (Inr req) \<Longrightarrow> Dispatch cs h submitted d now w = ([], w)"
  "Dispatch cs h False d now w = ([], w)"
  by (auto simp: Dispatch_def handle_package_def split: outcome.split sum.split)

section \<open>At most one reply\<close>

definition sends_at_most :: "nat \<Rightarrow> (('b, 'x, 'w) exchange \<Rightarrow> ('b, 'x, 'w) ex_run) \<Rightarrow> bool" where
  "sends_at_most n f \<longleftrightarrow> (\<forall>e. length (xSent (final_state (f e))) \<le> length (xSent e) + n)"

text \<open>A middleware that sends nothing itself and calls its successor at most once.\<close>

definition forwards_once :: "('b, 'x, 'w) ex_mw \<Rightarrow> bool" where
  "forwards_once f \<longleftrightarrow> (\<forall>next n. sends_at_most n next \<longrightarrow> sends_at_most n (f (Some next)))"

lemma send_encoded_once: "length (xSent (send_encoded cs p e)) \<le> Suc (length (xSent e))"
  by (simp add: send_encoded_def SendPkg_def split: sum.split)

lemma onRequest_sends:
  assumes "\<And>name m. service name = Some m \<Longrightarrow> sends_at_most 0 m"
  shows "sends_at_most 1 (onRequest cs noBody service)"
  unfolding sends_at_most_def
proof
  fix e
  show "length (xSent (final_state (onRequest cs noBody service e))) \<le> length (xSent e) + 1"
  proof (cases "service (hMethod (req_head e))")
    case None
    then show ?thesis
      by (simp add: onRequest_def Let_def order_trans [OF send_encoded_once])
  next
    case (Some m)
    with assms have "length (xSent (final_state (m e))) \<le> length (xSent e)"
      by (fastforce simp: sends_at_most_def)
    with Some send_encoded_once show ?thesis
      by (cases "m e") (auto simp: onRequest_def Let_def intro: order_trans)
  qed
qed

lemma compose_sends:
  assumes "\<forall>f \<in> set fs. forwards_once f" "sends_at_most n (final None)"
  shows "\<exists>r. compose (fs @ [final]) = Some r \<and> sends_at_most n r"
  using assms by (induction fs) (auto simp: forwards_once_def)

text \<open>
  C20: with middlewares that call their successor at most once and send nothing themselves, and
  methods that send nothing themselves, every package is answered by at most one package.
\<close>

theorem at_most_one_reply:
  assumes "linked mws" "\<forall>f \<in> set (map miFunc mws). forwards_once f"
    and "\<forall>name m. service name = Some m \<longrightarrow> sends_at_most 0 m"
  shows "length (fst (Dispatch cs (NewServiceHandler cs noBody service mws) submitted d now w)) \<le> 1"
proof -
  have "sends_at_most 1 (finalFunc cs noBody service None)"
    using onRequest_sends [of service cs noBody] assms(3) by (simp add: finalFunc_def)
  with compose_sends [OF assms(2)] handler_chain [OF assms(1), of cs noBody service]
  have "sends_at_most 1 (invoke (length (shInfos (NewServiceHandler cs noBody service mws)))
          (shInfos (NewServiceHandler cs noBody service mws)) 0)"
    by fastforce
  then have "length (xSent (final_state (invoke (length (shInfos (NewServiceHandler cs noBody service mws)))
          (shInfos (NewServiceHandler cs noBody service mws)) 0 (new_exchange r now w)))) \<le> 1" for r
    using new_exchange_simps(7) [of r now w] unfolding sends_at_most_def by (metis add_0 list.size(3))
  then show ?thesis
    by (auto simp: Dispatch_def handle_package_def split: outcome.split sum.split)
qed

section \<open>Witnesses\<close>

text \<open>A service with one method that counts its calls and one that panics.\<close>

definition sample_service :: "(nat, unit, nat) service" where
  "sample_service name =
     (if name = ''a<b'' then Some (\<lambda>e. Done (e\<lparr>xResp := Response_SetBody (Some 5) (xResp e), xWorld := Suc (xWorld e)\<rparr>))
      else if name = ''crash'' then Some (\<lambda>e. Panicked HandlerPanic (e\<lparr>xWorld := Suc (xWorld e)\<rparr>))
      else None)"

lemma sample_json_body: "enc_body (json sample_codecs) b = Inr (case b of None \<Rightarrow> [] | Some n \<Rightarrow> [of_nat n])"
  by (simp add: sample_codecs_def sample_codec_def)

lemma sample_method: "hMethod sample_head = ''a<b''"
  by (simp add: sample_head_def)

lemma service_answers_request_witness:
  "\<exists>d d' p. EncodeWithBodyData (with_json sample_codecs) sample_request = Inr d \<and>
     Dispatch (with_json sample_codecs) (NewServiceHandler (with_json sample_codecs) 0 sample_service []) True d 9 0 = ([d'], 1) \<and>
     DecodeWithBodyData (with_json sample_codecs) d' = Ret (Inr p) \<and> GetHead p = sample_head \<and> GetBodyData p = [5]"
proof -
  obtain d where d: "EncodeWithBodyData (with_json sample_codecs) sample_request = Inr d" "length d \<le> 2 ^ 32"
    using sample_request_encodes by blast
  obtain hb where hb: "json_enc_head sample_head = Inr hb" "length hb \<le> 1000"
    using sample_head_size by blast
  let ?x = "new_exchange (sample_request\<lparr>pPkgData := Some d, pBody := None\<rparr>) 9 (0::nat) :: (nat, unit, nat) exchange"
  let ?y = "?x\<lparr>xResp := Response_SetBody (Some 5) (xResp ?x), xWorld := Suc (xWorld ?x)\<rparr>"
  have "resp_head ?y = resp_head ?x"
    by (simp add: resp_head_def Response_SetBody_def)
  then have "resp_head ?y = sample_head" by simp
  with service_answers_request [OF _ _ d, of sample_service _ 9 0 ?y hb "[5]" 0] sample_head_good hb d
  show ?thesis
    by (auto simp: sample_service_def sample_method sample_json_body Response_SetBody_def)
qed


lemma panicking_method_no_reply_witness:
  "\<exists>d. EncodeWithBodyData (with_json sample_codecs) sample_request = Inr d \<and>
     Dispatch (with_json sample_codecs)
       (NewServiceHandler (with_json sample_codecs) 0 (\<lambda>_. sample_service ''crash'') []) True d 9 3 = ([], 4)"
proof -
  obtain d where d: "EncodeWithBodyData (with_json sample_codecs) sample_request = Inr d" "length d \<le> 2 ^ 32"
    using sample_request_encodes by blast
  from panicking_method_no_reply [OF json_package_frame [OF _ _ d], of "\<lambda>_. sample_service ''crash''"] d sample_head_good
  show ?thesis by (auto simp: sample_service_def)
qed

text \<open>A middleware that refuses to go on when the world is 0.\<close>

definition sample_gate :: "(nat, unit, nat) ex_mw" where
  "sample_gate next e =
     (if xWorld e = 0 then Done e else case next of None \<Rightarrow> Panicked NilDeref e | Some f \<Rightarrow> f e)"

lemma at_most_one_reply_witness:
  "length (fst (Dispatch (with_json sample_codecs) (NewServiceHandler (with_json sample_codecs) 0 sample_service
     (append_info sample_gate (append_info sample_gate []))) True [] 9 1)) \<le> 1"
  by (rule at_most_one_reply)
     (auto simp: append_info_funcs append_info_linked forwards_once_def sends_at_most_def sample_gate_def
       sample_service_def)

end
