(* ===== verification/Service_Context.thy ===== *)
theory Service_Context
  imports Service_Handler "HOL-Library.AList"
begin

text \<open>
  Setting up services (\<open>service_context.go\<close>): the table of services, the middleware chain of each
  name, the start of all services and the signals that stop them. The table is an association
  list, in the order in which the code ranges over its map. What the operating system and etcd
  answer while services start is a parameter (\<open>start_env\<close>).
\<close>

section \<open>The context\<close>

record 'v service_info =
  siName :: string
  siPort :: int
  siWeight :: int
  siService :: 'v

type_synonym ('b, 'x, 'w) chain_of_name = "string \<rightharpoonup> ('b, 'x, 'w) exchange mw_info list"

record ('b, 'x, 'w) service_context =
  scServiceList :: "(string \<times> ('b, 'x, 'w) service service_info) list"
  scEndpoints :: "string list"
  scMiddlewares :: "('b, 'x, 'w) chain_of_name"

definition NewServiceContext :: "string list \<Rightarrow> ('b, 'x, 'w) service_context" where
  "NewServiceContext endpoints = \<lparr>scServiceList = [], scEndpoints = endpoints, scMiddlewares = Map.empty\<rparr>"

definition CreateService ::
    "string \<Rightarrow> int \<Rightarrow> ('b, 'x, 'w) service \<Rightarrow> int \<Rightarrow> ('b, 'x, 'w) service_context \<Rightarrow> ('b, 'x, 'w) service_context" where
  "CreateService name port service weight svc =
     (let info = \<lparr>siName = name, siPort = port, siWeight = weight, siService = service\<rparr>
      in svc\<lparr>scServiceList := AList.update name info (scServiceList svc)\<rparr>)"

text \<open>The slice of a name; reading a missing key gives the nil slice.\<close>

definition chain_of :: "string \<Rightarrow> ('b, 'x, 'w) service_context \<Rightarrow> ('b, 'x, 'w) exchange mw_info list" where
  "chain_of name svc = (case scMiddlewares svc name of None \<Rightarrow> [] | Some list \<Rightarrow> list)"

definition AddMiddleware ::
    "string \<Rightarrow> ('b, 'x, 'w) ex_mw \<Rightarrow> ('b, 'x, 'w) service_context \<Rightarrow> ('b, 'x, 'w) service_context" where
  "AddMiddleware name middleware svc =
     (let list = chain_of name svc;
          minfo = \<lparr>miFunc = middleware, miNext = None\<rparr>;
          mlen = length list;
          list = (if mlen > 0 then list[mlen - 1 := (list ! (mlen - 1))\<lparr>miNext := Some mlen\<rparr>] else list)
      in svc\<lparr>scMiddlewares := (scMiddlewares svc)(name \<mapsto> list @ [minfo])\<rparr>)"

lemma chain_of_AddMiddleware:
  "chain_of n (AddMiddleware name f svc) =
     (if n = name then append_info f (chain_of name svc) else chain_of n svc)"
  by (simp add: AddMiddleware_def append_info_def chain_of_def Let_def)

interpretation sc: middleware_owner "AddMiddleware name" "chain_of name"
  by unfold_locales (simp_all add: chain_of_AddMiddleware append_info_linked append_info_funcs)

section \<open>Start and stop\<close>

record start_env =
  envListen :: "int \<Rightarrow> go_error option"                     \<comment> \<open>\<open>CreateServer\<close> on the port\<close>
  envConnect :: "string \<Rightarrow> go_error option"                 \<comment> \<open>\<open>NewServiceRegister\<close> for the service\<close>
  envRegister :: "string \<Rightarrow> int \<Rightarrow> int \<Rightarrow> go_error option"    \<comment> \<open>\<open>Register\<close>\<close>

datatype start_stage = ListenFailed go_error | ConnectFailed go_error | RegisterFailed go_error | Running

text \<open>One goroutine of \<open>StartAndWait\<close>: the stage it ends in, with the handler it serves.\<close>

definition start_service ::
    "'b codecs \<Rightarrow> 'b \<Rightarrow> start_env \<Rightarrow> ('b, 'x, 'w) service_context \<Rightarrow> ('b, 'x, 'w) service service_info
       \<Rightarrow> start_stage \<times> ('b, 'x, 'w) service_handler" where
  "start_service cs noBody env svc info =
     (let handler = NewServiceHandler cs noBody (siService info) (chain_of (siName info) svc) in
      (case envListen env (siPort info) of
         Some err \<Rightarrow> ListenFailed err
       | None \<Rightarrow>
           (case envConnect env (siName info) of
              Some err \<Rightarrow> ConnectFailed err
            | None \<Rightarrow>
                (case envRegister env (siName info) (siPort info) (siWeight info) of
                   Some err \<Rightarrow> RegisterFailed err
                 | None \<Rightarrow> Running)), handler))"

text \<open>
  The wait group counts the services; a goroutine signs off on every failure. \<open>StartAndWait\<close>
  returns when the count is 0; \<open>None\<close> means that it waits for ever.
\<close>

fun sign_off :: "start_stage \<Rightarrow> int \<Rightarrow> int" where
  "sign_off Running n = n"
| "sign_off _ n = n - 1"

definition wait_count :: "'b codecs \<Rightarrow> 'b \<Rightarrow> start_env \<Rightarrow> ('b, 'x, 'w) service_context \<Rightarrow> int" where
  "wait_count cs noBody env svc =
     fold (\<lambda>(name, info). sign_off (fst (start_service cs noBody env svc info))) (scServiceList svc)
       (int (length (scServiceList svc)))"

definition StartAndWait :: "'b codecs \<Rightarrow> 'b \<Rightarrow> start_env \<Rightarrow> ('b, 'x, 'w) service_context \<Rightarrow> go_error option option" where
  "StartAndWait cs noBody env svc = (if wait_count cs noBody env svc = 0 then Some None else None)"

datatype os_signal = SIGHUP | SIGINT | SIGTERM | SIGQUIT | OtherSignal

text \<open>The goroutine of the signals: what it unregisters, and whether the program exits.\<close>

fun unregister_all :: "start_env \<Rightarrow> (string \<times> 'v service_info) list \<Rightarrow> (string \<times> int) list" where
  "unregister_all env [] = []"
| "unregister_all env ((name, info) # infos) =
     (case envConnect env (siName info) of
        Some err \<Rightarrow> unregister_all env infos
      | None \<Rightarrow> (siName info, siPort info) # unregister_all env infos)"

definition on_signal :: "start_env \<Rightarrow> ('b, 'x, 'w) service_context \<Rightarrow> os_signal \<Rightarrow> (string \<times> int) list \<times> bool" where
  "on_signal env svc s =
     (if s \<in> {SIGHUP, SIGINT, SIGTERM, SIGQUIT} then (unregister_all env (scServiceList svc), True) else ([], False))"

section \<open>Properties\<close>

lemma chain_of_fold:
  assumes "linked (chain_of name svc)"
  shows "linked (chain_of name (fold (\<lambda>(n, f). AddMiddleware n f) adds svc)) \<and>
    map miFunc (chain_of name (fold (\<lambda>(n, f). AddMiddleware n f) adds svc)) =
      map miFunc (chain_of name svc) @ map snd (filter (\<lambda>(n, f). n = name) adds)"
  using assms
proof (induction adds arbitrary: svc)
  case (Cons a adds)
  have "linked (chain_of name (AddMiddleware (fst a) (snd a) svc))"
    using Cons.prems by (auto simp: chain_of_AddMiddleware append_info_linked)
  from Cons.IH [OF this] show ?case
    by (cases a) (simp add: chain_of_AddMiddleware append_info_funcs)
qed simp

text \<open>
  C19: whatever middlewares were added for whatever names, the handler of a service runs the
  functions added for its own name, in the order they were added, each as the successor of the one
  before, and the service's dispatch last.
\<close>

theorem service_chain_equals_composition:
  "let svc = fold (\<lambda>(n, f). AddMiddleware n f) adds (NewServiceContext endpoints);
       h = snd (start_service cs noBody env svc info)
   in Some (invoke (length (shInfos h)) (shInfos h) 0) =
        compose (map snd (filter (\<lambda>(n, f). n = siName info) adds) @ [finalFunc cs noBody (siService info)])"
proof -
  let ?svc = "fold (\<lambda>(n, f). AddMiddleware n f) adds (NewServiceContext endpoints)"
  have "linked (chain_of (siName info) ?svc)"
    and "map miFunc (chain_of (siName info) ?svc) = map snd (filter (\<lambda>(n, f). n = siName info) adds)"
    using chain_of_fold [of "siName info" "NewServiceContext endpoints" adds]
    by (simp_all add: chain_of_def NewServiceContext_def)
  with handler_chain [of "chain_of (siName info) ?svc" cs noBody "siService info"] show ?thesis
    by (simp add: start_service_def Let_def)
qed

lemma fold_sign_off:
  "fold (\<lambda>(n, i). sign_off (g i)) xs k = k - int (length (filter (\<lambda>(n, i). g i \<noteq> Running) xs))"
proof (induction xs arbitrary: k)
  case (Cons x xs)
  then show ?case by (cases x; cases "g (snd x)") simp_all
qed simp

lemma filter_all: "length (filter P xs) = length xs \<longleftrightarrow> list_all P xs"
proof
  assume "length (filter P xs) = length xs"
  then have "\<not> (\<exists>x \<in> set xs. \<not> P x)"
    using length_filter_less [of _ xs P] by force
  then show "list_all P xs" by (simp add: list_all_iff)
qed (simp add: list_all_iff)

text \<open>
  The wait group never goes below 0, and \<open>StartAndWait\<close> returns, without an error, exactly
  when every service failed to listen, to connect to etcd or to register.
\<close>

theorem StartAndWait_returns:
  "0 \<le> wait_count cs noBody env svc \<and>
   (StartAndWait cs noBody env svc =
      (if list_all (\<lambda>(name, info). fst (start_service cs noBody env svc info) \<noteq> Running) (scServiceList svc)
       then Some None else None))"
proof -
  let ?P = "\<lambda>(name :: string, info). fst (start_service cs noBody env svc info) \<noteq> Running"
  have w: "wait_count cs noBody env svc = int (length (scServiceList svc)) - int (length (filter ?P (scServiceList svc)))"
    by (simp add: wait_count_def fold_sign_off)
  then have "0 \<le> wait_count cs noBody env svc" by simp
  moreover have "wait_count cs noBody env svc = 0 \<longleftrightarrow> list_all ?P (scServiceList svc)"
    unfolding filter_all [symmetric] using w by linarith
  ultimately show ?thesis
    by (simp add: StartAndWait_def)
qed

lemma unregister_all_set:
  "\<lbrakk>\<And>n. envConnect env n = None\<rbrakk> \<Longrightarrow>
     unregister_all env infos = map (\<lambda>(n, i). (siName i, siPort i)) infos"
  by (induction infos) auto

end
