(* ===== verification/Apm_Monitor.thy ===== *)
theory Apm_Monitor
  imports Service_Handler
begin

text \<open>
  The monitor of service calls (\<open>apm_monitor.go\<close>): a middleware that counts calls, errors and
  times per mname, and a goroutine that hands the counts over every minute and starts new ones.
  Statuses live in a heap, because a call keeps the pointer it looked up while the map is
  replaced. The operations on the monitor are composed in two ways: to the middleware of one call,
  and to a transition system of any number of calls and the reporter.
\<close>

section \<open>The monitor\<close>

definition APM_COUNT_INTERVAL :: int where "APM_COUNT_INTERVAL = 60"

record apm_status =
  asTotal :: uint64
  asError :: uint64
  asTime :: uint64

type_synonym status_ref = nat

record apm_monitor =
  amHeap :: "apm_status list"
  amStatuses :: "(string \<times> status_ref) list"
  amInterval :: int

definition NewApmMonitor :: apm_monitor where
  "NewApmMonitor = \<lparr>amHeap = [], amStatuses = [], amInterval = APM_COUNT_INTERVAL * 10 ^ 9\<rparr>"

definition am_lookup :: "string \<Rightarrow> apm_monitor \<Rightarrow> status_ref \<times> apm_monitor" where
  "am_lookup mname am =
     (case map_of (amStatuses am) mname of
        Some r \<Rightarrow> (r, am)
      | None \<Rightarrow>
          let r = length (amHeap am) in
          (r, am\<lparr>amHeap := amHeap am @ [\<lparr>asTotal = 0, asError = 0, asTime = 0\<rparr>],
                 amStatuses := amStatuses am @ [(mname, r)]\<rparr>))"

definition am_upd :: "status_ref \<Rightarrow> (apm_status \<Rightarrow> apm_status) \<Rightarrow> apm_monitor \<Rightarrow> apm_monitor" where
  "am_upd r f am = am\<lparr>amHeap := (amHeap am)[r := f (amHeap am ! r)]\<rparr>"

definition am_count :: "status_ref \<Rightarrow> apm_monitor \<Rightarrow> apm_monitor" where
  "am_count r = am_upd r (\<lambda>s. s\<lparr>asTotal := asTotal s + 1\<rparr>)"

definition am_time :: "status_ref \<Rightarrow> int \<Rightarrow> apm_monitor \<Rightarrow> apm_monitor" where
  "am_time r ms = am_upd r (\<lambda>s. s\<lparr>asTime := asTime s + of_int ms\<rparr>)"

definition am_judge :: "status_ref \<Rightarrow> int \<Rightarrow> apm_monitor \<Rightarrow> apm_monitor" where
  "am_judge r ret am = (if ret \<noteq> 0 then am_upd r (\<lambda>s. s\<lparr>asError := asError s + 1\<rparr>) am else am)"

definition am_average :: "status_ref \<Rightarrow> apm_monitor \<Rightarrow> apm_monitor" where
  "am_average r = am_upd r (\<lambda>s. if asTotal s > 0 then s\<lparr>asTime := asTime s div asTotal s\<rparr> else s)"

definition am_swap :: "apm_monitor \<Rightarrow> (string \<times> status_ref) list \<times> apm_monitor" where
  "am_swap am = (amStatuses am, am\<lparr>amStatuses := []\<rparr>)"

section \<open>The middleware of one call\<close>

text \<open>The world of the exchange: the monitor, the clock in milliseconds and the rest.\<close>

record 'w apm_world =
  awMonitor :: apm_monitor
  awClock :: int
  awRest :: 'w

definition on_monitor ::
    "(apm_monitor \<Rightarrow> apm_monitor) \<Rightarrow> ('b, 'x, 'w apm_world) exchange \<Rightarrow> ('b, 'x, 'w apm_world) exchange" where
  "on_monitor f e = e\<lparr>xWorld := (xWorld e)\<lparr>awMonitor := f (awMonitor (xWorld e))\<rparr>\<rparr>"

definition Middleware :: "('b, 'x, 'w apm_world) ex_mw" where
  "Middleware next e =
     (let r = fst (am_lookup (hMethod (req_head e)) (awMonitor (xWorld e)));
          e = on_monitor (\<lambda>am. snd (am_lookup (hMethod (req_head e)) am)) e;
          e = on_monitor (am_count r) e;
          start = awClock (xWorld e)
      in case next of
           None \<Rightarrow> Panicked NilDeref e
         | Some f \<Rightarrow> then_run (f e) (\<lambda>e.
             let e = on_monitor (am_time r (awClock (xWorld e) - start)) e
             in Done (on_monitor (am_judge r (hRet (resp_head e))) e)))"

text \<open>The whole body of the reporter's loop; \<open>OnData\<close> gets the map and the heap it points into.\<close>

definition reportAndReset :: "apm_monitor \<Rightarrow> ((string \<times> status_ref) list \<times> apm_status list) \<times> apm_monitor" where
  "reportAndReset am =
     (let (statuses, am) = am_swap am;
          am = fold am_average (map snd statuses) am
      in ((statuses, amHeap am), am))"

section \<open>Calls and the reporter at the same time\<close>

text \<open>How far a call is: it has its status, it is counted and runs, its time is in, it has left
  (with an error or not), or a panic has passed through.\<close>

datatype call_stage = Looked | Counted | Timed | Answered bool | Crashed

text \<open>The reporter sleeps, or it works on a map it has taken; it has averaged the listed statuses.\<close>

datatype reporter = Sleeping | Averaging "(string \<times> status_ref) list" "status_ref list"

record apm_system =
  syMonitor :: apm_monitor
  syCalls :: "(status_ref \<times> call_stage) list"
  syReporter :: reporter
  syDelivered :: "status_ref list"   \<comment> \<open>the statuses given to \<open>OnData\<close>, in order\<close>

datatype apm_action =
    Enter string | Count nat | AddTime nat int | Judge nat int | Crash nat
  | Swap | Average status_ref | Deliver

definition set_stage :: "nat \<Rightarrow> call_stage \<Rightarrow> apm_system \<Rightarrow> apm_system" where
  "set_stage i c y = y\<lparr>syCalls := (syCalls y)[i := (fst (syCalls y ! i), c)]\<rparr>"

abbreviation at_stage :: "apm_system \<Rightarrow> nat \<Rightarrow> call_stage \<Rightarrow> bool" where
  "at_stage y i c \<equiv> i < length (syCalls y) \<and> snd (syCalls y ! i) = c"

fun apm_do :: "apm_system \<Rightarrow> apm_action \<Rightarrow> apm_system option" where
  "apm_do y (Enter mname) =
     (let (r, am) = am_lookup mname (syMonitor y)
      in Some (y\<lparr>syMonitor := am, syCalls := syCalls y @ [(r, Looked)]\<rparr>))"
| "apm_do y (Count i) =
     (if at_stage y i Looked
      then Some (set_stage i Counted (y\<lparr>syMonitor := am_count (fst (syCalls y ! i)) (syMonitor y)\<rparr>)) else None)"
| "apm_do y (AddTime i ms) =
     (if at_stage y i Counted
      then Some (set_stage i Timed (y\<lparr>syMonitor := am_time (fst (syCalls y ! i)) ms (syMonitor y)\<rparr>)) else None)"
| "apm_do y (Judge i ret) =
     (if at_stage y i Timed
      then Some (set_stage i (Answered (ret \<noteq> 0))
             (y\<lparr>syMonitor := am_judge (fst (syCalls y ! i)) ret (syMonitor y)\<rparr>)) else None)"
| "apm_do y (Crash i) = (if at_stage y i Counted then Some (set_stage i Crashed y) else None)"
| "apm_do y Swap =
     (if syReporter y = Sleeping
      then Some (let (m, am) = am_swap (syMonitor y) in y\<lparr>syMonitor := am, syReporter := Averaging m []\<rparr>) else None)"
| "apm_do y (Average r) =
     (case syReporter y of
        Averaging m rs \<Rightarrow>
          (if r \<in> set (map snd m) \<and> r \<notin> set rs
           then Some (y\<lparr>syMonitor := am_average r (syMonitor y), syReporter := Averaging m (r # rs)\<rparr>) else None)
      | Sleeping \<Rightarrow> None)"
| "apm_do y Deliver =
     (case syReporter y of
        Averaging m rs \<Rightarrow>
          (if set (map snd m) \<subseteq> set rs
           then Some (y\<lparr>syReporter := Sleeping, syDelivered := syDelivered y @ map snd m\<rparr>) else None)
      | Sleeping \<Rightarrow> None)"

definition apm_step :: "apm_system \<Rightarrow> apm_system \<Rightarrow> bool" where
  "apm_step y y' \<longleftrightarrow> (\<exists>a. apm_do y a = Some y')"

definition apm_start :: "apm_system \<Rightarrow> bool" where
  "apm_start y \<longleftrightarrow> y = \<lparr>syMonitor = NewApmMonitor, syCalls = [], syReporter = Sleeping, syDelivered = []\<rparr>"

fun apm_run :: "apm_system \<Rightarrow> apm_action list \<Rightarrow> apm_system option" where
  "apm_run y [] = Some y"
| "apm_run y (a # as) = (case apm_do y a of None \<Rightarrow> None | Some y' \<Rightarrow> apm_run y' as)"

section \<open>The invariant\<close>

definition counted :: "status_ref \<Rightarrow> (status_ref \<times> call_stage) list \<Rightarrow> int" where
  "counted r calls = int (length (filter (\<lambda>x. fst x = r \<and> snd x \<noteq> Looked) calls))"

definition erred :: "status_ref \<Rightarrow> (status_ref \<times> call_stage) list \<Rightarrow> int" where
  "erred r calls = int (length (filter (\<lambda>x. fst x = r \<and> snd x = Answered True) calls))"

fun reporter_refs :: "reporter \<Rightarrow> status_ref list" where
  "reporter_refs Sleeping = []"
| "reporter_refs (Averaging m rs) = map snd m"

text \<open>All statuses ever made: handed over, in the reporter's hands, or in use.\<close>

definition all_refs :: "apm_system \<Rightarrow> status_ref list" where
  "all_refs y = syDelivered y @ reporter_refs (syReporter y) @ map snd (amStatuses (syMonitor y))"

definition counts_ok :: "apm_status list \<Rightarrow> (status_ref \<times> call_stage) list \<Rightarrow> bool" where
  "counts_ok h calls \<longleftrightarrow> (\<forall>x \<in> set calls. fst x < length h) \<and>
     (\<forall>r < length h. asTotal (h ! r) = of_int (counted r calls) \<and> asError (h ! r) = of_int (erred r calls))"

definition apm_inv :: "apm_system \<Rightarrow> bool" where
  "apm_inv y \<longleftrightarrow> distinct (all_refs y) \<and> set (all_refs y) = {..<length (amHeap (syMonitor y))} \<and>
     counts_ok (amHeap (syMonitor y)) (syCalls y)"

lemma counts_stage:
  assumes "i < length calls"
  shows "counted r (calls[i := (fst (calls ! i), c)]) = counted r calls +
      (if fst (calls ! i) = r then (if c \<noteq> Looked then 1 else 0) - (if snd (calls ! i) \<noteq> Looked then 1 else 0) else 0)"
    and "erred r (calls[i := (fst (calls ! i), c)]) = erred r calls +
      (if fst (calls ! i) = r then (if c = Answered True then 1 else 0) - (if snd (calls ! i) = Answered True then 1 else 0) else 0)"
  using assms by (simp_all add: counted_def erred_def length_filter_update)

lemma counts_unused: "\<forall>x \<in> set calls. fst x < r \<Longrightarrow> counted r calls = 0 \<and> erred r calls = 0"
  by (auto simp: counted_def erred_def filter_empty_conv)

lemma counts_ok_new:
  "counts_ok h calls \<Longrightarrow> counts_ok (h @ [\<lparr>asTotal = 0, asError = 0, asTime = t\<rparr>]) (calls @ [(length h, Looked)])"
  using counts_unused [of calls "length h"]
  by (auto simp: counts_ok_def nth_append less_Suc_eq) (auto simp: counted_def erred_def)

lemma counts_ok_enter:
  "counts_ok h calls \<Longrightarrow> r < length h \<Longrightarrow> counts_ok h (calls @ [(r, Looked)])"
  by (auto simp: counts_ok_def) (auto simp: counted_def erred_def)

text \<open>A call moves on and its status is changed to match.\<close>

lemma counts_ok_stage:
  assumes ok: "counts_ok h calls" and i: "i < length calls" and r: "r = fst (calls ! i)"
    and "asTotal (f (h ! r)) = asTotal (h ! r) +
           of_int ((if c \<noteq> Looked then 1 else 0) - (if snd (calls ! i) \<noteq> Looked then 1 else 0))"
    and "asError (f (h ! r)) = asError (h ! r) +
           of_int ((if c = Answered True then 1 else 0) - (if snd (calls ! i) = Answered True then 1 else 0))"
  shows "counts_ok (h[r := f (h ! r)]) (calls[i := (r, c)])"
proof -
  have "r < length h" using ok i r nth_mem [OF i] by (auto simp: counts_ok_def)
  moreover from this have "\<forall>x \<in> set (calls[i := (r, c)]). fst x < length h"
    using ok by (auto simp: counts_ok_def dest!: set_update_subset_insert [THEN subsetD])
  ultimately show ?thesis
    using ok assms(4,5) counts_stage [OF i, of _ c]
    by (auto simp: counts_ok_def r nth_list_update)
qed

lemma counts_ok_upd:
  assumes "counts_ok h calls" "\<And>s. asTotal (f s) = asTotal s \<and> asError (f s) = asError s"
  shows "counts_ok (h[r := f (h ! r)]) calls"
  using assms by (auto simp: counts_ok_def nth_updated)

lemma am_upd_simps [simp]:
  "amStatuses (am_upd r f am) = amStatuses am" "length (amHeap (am_upd r f am)) = length (amHeap am)"
  "amHeap (am_upd r f am) = (amHeap am)[r := f (amHeap am ! r)]"
  by (simp_all add: am_upd_def)

lemma apm_inv_stage:
  assumes "apm_inv y" "at_stage y i old"
    and "amStatuses am = amStatuses (syMonitor y)"
    and "amHeap am = (amHeap (syMonitor y))[r := f (amHeap (syMonitor y) ! r)]" "r = fst (syCalls y ! i)"
    and "\<And>s. asTotal (f s) = asTotal s + of_int ((if c \<noteq> Looked then 1 else 0) - (if old \<noteq> Looked then 1 else 0))"
    and "\<And>s. asError (f s) = asError s + of_int ((if c = Answered True then 1 else 0) - (if old = Answered True then 1 else 0))"
  shows "apm_inv (set_stage i c (y\<lparr>syMonitor := am\<rparr>))"
  using assms counts_ok_stage [of "amHeap (syMonitor y)" "syCalls y" i r f c]
  by (auto simp: apm_inv_def set_stage_def all_refs_def)

lemma apm_inv_stage_only:
  assumes "apm_inv y" "at_stage y i old" "c \<noteq> Looked \<longleftrightarrow> old \<noteq> Looked" "c = Answered True \<longleftrightarrow> old = Answered True"
  shows "apm_inv (set_stage i c y)"
  using apm_inv_stage [of y i old "syMonitor y" _ id c] assms by auto

lemma apm_inv_Enter:
  assumes "apm_inv y"
  shows "apm_inv (y\<lparr>syMonitor := snd (am_lookup mname (syMonitor y)),
    syCalls := syCalls y @ [(fst (am_lookup mname (syMonitor y)), Looked)]\<rparr>)"
proof (cases "map_of (amStatuses (syMonitor y)) mname")
  case None
  with assms counts_ok_new show ?thesis
    by (auto simp: apm_inv_def am_lookup_def Let_def all_refs_def lessThan_Suc)
next
  case (Some r)
  then have "r \<in> set (map snd (amStatuses (syMonitor y)))"
    by (force dest: map_of_SomeD)
  with assms have "r < length (amHeap (syMonitor y))"
    by (auto simp: apm_inv_def all_refs_def)
  with Some assms counts_ok_enter show ?thesis
    by (auto simp: apm_inv_def am_lookup_def all_refs_def)
qed

lemma apm_inv_average:
  assumes "apm_inv y" "syReporter y = Averaging m rs"
  shows "apm_inv (y\<lparr>syMonitor := am_average r (syMonitor y), syReporter := Averaging m rs'\<rparr>)"
proof -
  have "counts_ok (amHeap (am_average r (syMonitor y))) (syCalls y)"
    using assms(1) unfolding am_average_def am_upd_simps
    by (intro counts_ok_upd) (simp_all add: apm_inv_def)
  with assms show ?thesis
    by (simp add: apm_inv_def all_refs_def am_average_def)
qed

lemma apm_inv_do: "apm_inv y \<Longrightarrow> apm_do y a = Some y' \<Longrightarrow> apm_inv y'"
proof (induction y a rule: apm_do.induct)
  case (1 y mname)
  with apm_inv_Enter [of y mname] show ?case by (auto simp: Let_def split: prod.splits)
next
  case (2 y i)
  then show ?case
    by (auto split: if_splits intro!: apm_inv_stage simp: am_count_def)
next
  case (3 y i ms)
  then show ?case
    by (auto split: if_splits intro!: apm_inv_stage simp: am_time_def)
next
  case (4 y i ret)
  show ?case
  proof (cases "ret = 0")
    case True
    with 4 show ?thesis by (auto split: if_splits intro!: apm_inv_stage_only simp: am_judge_def)
  next
    case False
    with 4 have "apm_inv (set_stage i (Answered True) (y\<lparr>syMonitor := am_judge (fst (syCalls y ! i)) ret (syMonitor y)\<rparr>))"
      by (intro apm_inv_stage [where old = Timed and f = "\<lambda>s. s\<lparr>asError := asError s + 1\<rparr>"])
         (auto split: if_splits simp: am_judge_def)
    with 4 False show ?thesis by (simp split: if_splits)
  qed
next
  case (5 y i)
  then show ?case
    by (auto split: if_splits intro!: apm_inv_stage_only)
next
  case (6 y)
  then show ?case
    by (auto split: if_splits simp: apm_inv_def am_swap_def all_refs_def)
next
  case (7 y r)
  then show ?case
    by (auto split: reporter.splits if_splits intro: apm_inv_average)
next
  case (8 y)
  then have "all_refs y' = all_refs y" "syMonitor y' = syMonitor y" "syCalls y' = syCalls y"
    by (auto simp: all_refs_def split: reporter.splits if_splits)
  with 8 show ?case by (simp add: apm_inv_def)
qed

lemma apm_inv_start: "apm_start y \<Longrightarrow> apm_inv y"
  by (simp add: apm_start_def apm_inv_def counts_ok_def all_refs_def NewApmMonitor_def)

interpretation apm: invariant_system apm_start apm_step apm_inv
  by unfold_locales (auto simp: apm_step_def apm_inv_start intro: apm_inv_do)

section \<open>Properties\<close>

text \<open>
  C33: under every interleaving each status holds exactly the calls that looked it up and counted
  themselves, and of these the ones that came back with an error; so, below 2^64 calls, a status
  never shows more errors than calls.
\<close>

theorem apm_counts_calls:
  assumes "reaches apm_start apm_step y" "r < length (amHeap (syMonitor y))" "length (syCalls y) < 2 ^ 64"
  shows "uint (asTotal (amHeap (syMonitor y) ! r)) = counted r (syCalls y) \<and>
    uint (asError (amHeap (syMonitor y) ! r)) = erred r (syCalls y) \<and>
    asError (amHeap (syMonitor y) ! r) \<le> asTotal (amHeap (syMonitor y) ! r)"
proof -
  let ?s = "amHeap (syMonitor y) ! r"
  have s: "asTotal ?s = of_int (counted r (syCalls y))" "asError ?s = of_int (erred r (syCalls y))"
    using apm.reaches_inv [OF assms(1)] assms(2) by (simp_all add: apm_inv_def counts_ok_def)
  have le: "erred r calls \<le> counted r calls" "counted r calls \<le> int (length calls)" "0 \<le> erred r calls" for calls
    by (simp_all add: erred_def counted_def) (induction calls, auto)
  have "0 \<le> counted r (syCalls y)" "counted r (syCalls y) < 2 ^ 64"
    using le [of "syCalls y"] assms(3) by simp_all
  with le [of "syCalls y"]
  have "uint (asTotal ?s) = counted r (syCalls y)" "uint (asError ?s) = erred r (syCalls y)"
    by (simp_all add: s uint_word_of_int)
  with le(1) [of "syCalls y"] show ?thesis
    by (simp add: word_le_def)
qed

lemma delivered_prefix: "apm_step\<^sup>*\<^sup>* y y' \<Longrightarrow> \<exists>later. syDelivered y' = syDelivered y @ later"
proof (induction rule: rtranclp_induct)
  case (step y' y'')
  then obtain a where "apm_do y' a = Some y''" by (auto simp: apm_step_def)
  then have "\<exists>l. syDelivered y'' = syDelivered y' @ l"
    by (induction y' a rule: apm_do.induct)
       (auto simp: set_stage_def Let_def split: if_splits prod.splits reporter.splits)
  with step.IH show ?case by auto
qed simp

text \<open>
  A status is handed to \<open>OnData\<close> at most once. So the outcome of a call that is running when
  its status is handed over appears in no later report.
\<close>

theorem status_delivered_once:
  assumes "reaches apm_start apm_step y" "r \<in> set (syDelivered y)" "apm_step\<^sup>*\<^sup>* y y'"
  shows "\<exists>later. syDelivered y' = syDelivered y @ later \<and> r \<notin> set later \<and> distinct (syDelivered y')"
proof -
  obtain later where l: "syDelivered y' = syDelivered y @ later"
    using delivered_prefix [OF assms(3)] by blast
  have "distinct (syDelivered y')"
    using apm.reaches_inv [OF reaches_steps [OF assms(3,1)]] by (simp add: apm_inv_def all_refs_def)
  with l assms(2) show ?thesis by auto
qed

section \<open>Calls one after another\<close>

text \<open>What a call that is not disturbed does to the monitor.\<close>

definition am_call :: "string \<times> int \<times> int \<Rightarrow> apm_monitor \<Rightarrow> apm_monitor" where
  "am_call = (\<lambda>(mname, ms, ret) am.
     (let (r, am) = am_lookup mname am in am_judge r ret (am_time r ms (am_count r am))))"

lemma on_monitor_simps [simp]:
  "xSent (on_monitor f e) = xSent e" "xReq (on_monitor f e) = xReq e" "xResp (on_monitor f e) = xResp e"
  "xHeads (on_monitor f e) = xHeads e" "resp_head (on_monitor f e) = resp_head e" "req_head (on_monitor f e) = req_head e"
  "awMonitor (xWorld (on_monitor f e)) = f (awMonitor (xWorld e))" "awClock (xWorld (on_monitor f e)) = awClock (xWorld e)"
  by (simp_all add: on_monitor_def resp_head_def req_head_def)

text \<open>The middleware around a successor that leaves the monitor alone.\<close>

lemma Middleware_call:
  assumes "\<And>e1. f e1 = Done (g e1)" "\<And>e1. awMonitor (xWorld (g e1)) = awMonitor (xWorld e1)"
  shows "\<exists>e1 e'. Middleware (Some f) e = Done e' \<and> xSent e' = xSent (g e1) \<and> xResp e' = xResp (g e1) \<and>
    awMonitor (xWorld e') = am_call (hMethod (req_head e), awClock (xWorld (g e1)) - awClock (xWorld e), hRet (resp_head (g e1)))
      (awMonitor (xWorld e))"
  by (rule exI [of _ "on_monitor (am_count (fst (am_lookup (hMethod (req_head e)) (awMonitor (xWorld e)))))
        (on_monitor (\<lambda>am. snd (am_lookup (hMethod (req_head e)) am)) e)"])
     (simp add: Middleware_def Let_def assms am_call_def split: prod.split)

lemma Middleware_forwards_once: "forwards_once (Middleware :: ('b, 'x, 'w apm_world) ex_mw)"
  unfolding forwards_once_def sends_at_most_def
proof (intro allI impI)
  fix f :: "('b, 'x, 'w apm_world) exchange \<Rightarrow> ('b, 'x, 'w apm_world) ex_run" and n
    and e :: "('b, 'x, 'w apm_world) exchange"
  let ?x = "on_monitor (am_count (fst (am_lookup (hMethod (req_head e)) (awMonitor (xWorld e)))))
        (on_monitor (\<lambda>am. snd (am_lookup (hMethod (req_head e)) am)) e)"
  assume "\<forall>e. length (xSent (final_state (f e))) \<le> length (xSent e) + n"
  then have "length (xSent (final_state (f ?x))) \<le> length (xSent ?x) + n" by blast
  then show "length (xSent (final_state (Middleware (Some f) e))) \<le> length (xSent e) + n"
    by (cases "f ?x") (simp_all add: Middleware_def Let_def)
qed

definition totals :: "string \<Rightarrow> (string \<times> int \<times> int) list \<Rightarrow> apm_status" where
  "totals m calls =
     (let own = filter (\<lambda>(k, ms, ret). k = m) calls in
      \<lparr>asTotal = of_nat (length own), asError = of_nat (length (filter (\<lambda>(k, ms, ret). ret \<noteq> 0) own)),
       asTime = of_int (sum_list (map (\<lambda>(k, ms, ret). ms) own))\<rparr>)"

definition seq_ok :: "(string \<times> int \<times> int) list \<Rightarrow> apm_monitor \<Rightarrow> bool" where
  "seq_ok calls am \<longleftrightarrow> distinct (map snd (amStatuses am)) \<and> (\<forall>r \<in> set (map snd (amStatuses am)). r < length (amHeap am)) \<and>
     (\<forall>m. case map_of (amStatuses am) m of
            None \<Rightarrow> m \<notin> set (map fst calls)
          | Some r \<Rightarrow> m \<in> set (map fst calls) \<and> amHeap am ! r = totals m calls)"

lemma totals_snoc:
  "totals m (calls @ [(k, ms, ret)]) =
     (if k = m then (let s = totals m calls in
        \<lparr>asTotal = asTotal s + 1, asError = (if ret \<noteq> 0 then asError s + 1 else asError s), asTime = asTime s + of_int ms\<rparr>)
      else totals m calls)"
  by (simp add: totals_def Let_def)

lemma totals_unused: "m \<notin> set (map fst calls) \<Longrightarrow> totals m calls = \<lparr>asTotal = 0, asError = 0, asTime = 0\<rparr>"
  by (induction calls) (auto simp: totals_def)

lemma am_call_heap:
  assumes "r < length (amHeap am)" "map_of (amStatuses am) m = Some r"
  shows "am_call (m, ms, ret) am = am\<lparr>amHeap := (amHeap am)[r := (let s = amHeap am ! r in
        \<lparr>asTotal = asTotal s + 1, asError = (if ret \<noteq> 0 then asError s + 1 else asError s), asTime = asTime s + of_int ms\<rparr>)]\<rparr>"
  using assms
  by (cases "amHeap am ! r") (simp add: am_call_def am_lookup_def am_count_def am_time_def am_judge_def am_upd_def Let_def)

text \<open>The entry a call uses is there after the look-up, with the counts so far.\<close>

lemma seq_ok_lookup:
  assumes "seq_ok calls am"
  obtains r am' where "am_lookup m am = (r, am')" "am_lookup m am' = (r, am')"
    "map_of (amStatuses am') m = Some r" "r < length (amHeap am')" "amHeap am' ! r = totals m calls"
    "distinct (map snd (amStatuses am'))" "\<forall>q \<in> set (map snd (amStatuses am')). q < length (amHeap am')"
    "\<forall>k. k \<noteq> m \<longrightarrow> map_of (amStatuses am') k = map_of (amStatuses am) k"
    "\<forall>q < length (amHeap am). amHeap am' ! q = amHeap am ! q"
proof (cases "map_of (amStatuses am) m")
  case None
  let ?am = "am\<lparr>amHeap := amHeap am @ [\<lparr>asTotal = 0, asError = 0, asTime = 0\<rparr>],
                 amStatuses := amStatuses am @ [(m, length (amHeap am))]\<rparr>"
  have "m \<notin> set (map fst calls)"
    using assms None unfolding seq_ok_def by (metis option.simps(4))
  then have t: "totals m calls = \<lparr>asTotal = 0, asError = 0, asTime = 0\<rparr>" by (rule totals_unused)
  show ?thesis
    by (rule that [of "length (amHeap am)" ?am])
       (use assms None t in \<open>auto simp: am_lookup_def Let_def seq_ok_def map_add_def nth_append split: option.splits\<close>)
next
  case (Some r)
  then have "r \<in> set (map snd (amStatuses am))" by (force dest: map_of_SomeD)
  with assms Some show ?thesis
    by (intro that [of r am]) (auto simp: am_lookup_def seq_ok_def split: option.splits)
qed

lemma seq_ok_call:
  assumes "seq_ok calls am"
  shows "seq_ok (calls @ [(m, ms, ret)]) (am_call (m, ms, ret) am)"
proof -
  obtain r am' where a: "am_lookup m am = (r, am')" "am_lookup m am' = (r, am')"
    "map_of (amStatuses am') m = Some r" "r < length (amHeap am')" "amHeap am' ! r = totals m calls"
    "distinct (map snd (amStatuses am'))" "\<forall>q \<in> set (map snd (amStatuses am')). q < length (amHeap am')"
    and o: "\<forall>k. k \<noteq> m \<longrightarrow> map_of (amStatuses am') k = map_of (amStatuses am) k"
    "\<forall>q < length (amHeap am). amHeap am' ! q = amHeap am ! q"
    by (rule seq_ok_lookup [OF assms, of m]) (rule that; assumption)
  have c: "am_call (m, ms, ret) am = am'\<lparr>amHeap := (amHeap am')[r := totals m (calls @ [(m, ms, ret)])]\<rparr>"
    using am_call_heap [OF a(4,3), of ms ret] a(1,2,5) by (simp add: am_call_def totals_snoc Let_def)
  have other: "case map_of (amStatuses am') k of None \<Rightarrow> k \<notin> set (map fst calls)
      | Some q \<Rightarrow> k \<in> set (map fst calls) \<and> q \<noteq> r \<and> amHeap am' ! q = totals k calls" if "k \<noteq> m" for k
  proof (cases "map_of (amStatuses am) k")
    case None
    moreover from this assms have "k \<notin> set (map fst calls)"
      unfolding seq_ok_def by (metis option.simps(4))
    ultimately show ?thesis using o(1) that by simp
  next
    case (Some q)
    then have "q < length (amHeap am)" "k \<in> set (map fst calls)" "amHeap am ! q = totals k calls"
      using assms unfolding seq_ok_def by (force dest: map_of_SomeD split: option.splits)+
    moreover have "q \<noteq> r"
    proof
      assume "q = r"
      with Some o(1) that have "map_of (amStatuses am') k = Some r" by simp
      then have "(k, r) \<in> set (amStatuses am')" by (rule map_of_SomeD)
      moreover have "(m, r) \<in> set (amStatuses am')" using a(3) by (rule map_of_SomeD)
      ultimately show False using a(6) that by (metis distinct_map inj_onD prod.inject snd_conv)
    qed
    ultimately show ?thesis using Some o that by simp
  qed
  have "case map_of (amStatuses am') k of None \<Rightarrow> k \<notin> set (map fst (calls @ [(m, ms, ret)]))
      | Some q \<Rightarrow> k \<in> set (map fst (calls @ [(m, ms, ret)])) \<and>
          (amHeap am')[r := totals m (calls @ [(m, ms, ret)])] ! q = totals k (calls @ [(m, ms, ret)])" for k
    using other [of k] a(3,4) by (cases "k = m") (auto simp: totals_snoc split: option.splits)
  then have "\<forall>k. case map_of (amStatuses am') k of None \<Rightarrow> k \<notin> set (map fst (calls @ [(m, ms, ret)]))
      | Some q \<Rightarrow> k \<in> set (map fst (calls @ [(m, ms, ret)])) \<and>
          (amHeap am')[r := totals m (calls @ [(m, ms, ret)])] ! q = totals k (calls @ [(m, ms, ret)])"
    by (rule allI)
  moreover have "amStatuses (am_call (m, ms, ret) am) = amStatuses am'"
    "amHeap (am_call (m, ms, ret) am) = (amHeap am')[r := totals m (calls @ [(m, ms, ret)])]"
    by (simp_all add: c)
  ultimately show ?thesis
    using a(6,7) by (simp only: seq_ok_def length_list_update) blast
qed

lemma seq_ok_calls: "seq_ok calls (fold am_call calls NewApmMonitor)"
proof (induction calls rule: rev_induct)
  case (snoc x calls)
  then show ?case using seq_ok_call by (cases x) simp
qed (simp add: seq_ok_def NewApmMonitor_def)

lemma fold_average:
  "distinct rs \<Longrightarrow> \<forall>r \<in> set rs. r < length (amHeap am) \<Longrightarrow>
     amHeap (fold am_average rs am) ! r =
       (let s = amHeap am ! r in if r \<in> set rs \<and> asTotal s > 0 then s\<lparr>asTime := asTime s div asTotal s\<rparr> else s)"
  by (induction rs arbitrary: am) (auto simp: am_average_def Let_def nth_updated)

text \<open>
  C34: after any sequence of calls that do not overlap, the report holds exactly the called methods,
  each with its number of calls, its number of errors and its average time.
\<close>

theorem sequential_report:
  "let ((statuses, heap), am') = reportAndReset (fold am_call calls NewApmMonitor);
       t = totals m calls
   in amStatuses am' = [] \<and>
      (case map_of statuses m of
         None \<Rightarrow> m \<notin> set (map fst calls)
       | Some r \<Rightarrow> m \<in> set (map fst calls) \<and>
           heap ! r = (if asTotal t > 0 then t\<lparr>asTime := asTime t div asTotal t\<rparr> else t))"
proof -
  let ?am = "fold am_call calls NewApmMonitor"
  have ok: "seq_ok calls ?am" by (rule seq_ok_calls)
  have st: "amStatuses (fold am_average rs am) = amStatuses am" for rs am
    by (induction rs arbitrary: am) (simp_all add: am_average_def)
  define am' where "am' = fold am_average (map snd (amStatuses ?am)) (?am\<lparr>amStatuses := []\<rparr>)"
  have rep: "reportAndReset ?am = ((amStatuses ?am, amHeap am'), am')"
    by (simp add: reportAndReset_def am_swap_def am'_def Let_def)
  show ?thesis
  proof (cases "map_of (amStatuses ?am) m")
    case None
    moreover have "case map_of (amStatuses ?am) m of None \<Rightarrow> m \<notin> set (map fst calls)
        | Some r \<Rightarrow> m \<in> set (map fst calls) \<and> amHeap ?am ! r = totals m calls"
      using ok unfolding seq_ok_def by blast
    ultimately show ?thesis by (simp add: rep am'_def st Let_def)
  next
    case (Some r)
    then have r: "r \<in> set (map snd (amStatuses ?am))" by (force dest: map_of_SomeD)
    have "case map_of (amStatuses ?am) m of None \<Rightarrow> m \<notin> set (map fst calls)
        | Some r \<Rightarrow> m \<in> set (map fst calls) \<and> amHeap ?am ! r = totals m calls"
      using ok unfolding seq_ok_def by blast
    with Some have "m \<in> set (map fst calls)" "amHeap ?am ! r = totals m calls" by simp_all
    moreover have "amHeap am' ! r = (let s = amHeap ?am ! r in
        if asTotal s > 0 then s\<lparr>asTime := asTime s div asTotal s\<rparr> else s)"
      using fold_average [of "map snd (amStatuses ?am)" "?am\<lparr>amStatuses := []\<rparr>" r] ok r
      by (simp add: am'_def seq_ok_def del: set_map)
    ultimately show ?thesis using Some by (simp add: rep am'_def st Let_def)
  qed
qed

section \<open>Witnesses\<close>

text \<open>A call that crosses a report: its error is counted after its status was handed over.\<close>

definition crossing :: "apm_action list" where
  "crossing = [Enter ''a'', Count 0, Swap, Average 0, Deliver]"

definition idle_system :: apm_system where
  "idle_system = \<lparr>syMonitor = NewApmMonitor, syCalls = [], syReporter = Sleeping, syDelivered = []\<rparr>"

lemma apm_run_steps: "apm_run y as = Some y' \<Longrightarrow> apm_step\<^sup>*\<^sup>* y y'"
proof (induction as arbitrary: y)
  case (Cons a as)
  then obtain z where "apm_do y a = Some z" "apm_run z as = Some y'" by (auto split: option.splits)
  with Cons.IH show ?case by (meson apm_step_def converse_rtranclp_into_rtranclp)
qed simp

lemma apm_run_reaches: "apm_run idle_system as = Some y \<Longrightarrow> reaches apm_start apm_step y"
  by (rule reaches_steps [OF apm_run_steps]) (auto simp: apm_start_def idle_system_def)

definition crossed :: apm_system where
  "crossed = the (apm_run idle_system crossing)"

definition lost :: apm_system where
  "lost = the (apm_run crossed [AddTime 0 5, Judge 0 7, Enter ''a'', Swap, Average 1, Deliver])"

lemma crossed_runs:
  "apm_run idle_system crossing = Some crossed" "apm_run idle_system (crossing @ [AddTime 0 5, Judge 0 7]) \<noteq> None"
  by code_simp+

lemma apm_counts_calls_witness:
  "uint (asTotal (amHeap (syMonitor crossed) ! 0)) = 1 \<and> uint (asError (amHeap (syMonitor crossed) ! 0)) = 0"
proof -
  have "0 < length (amHeap (syMonitor crossed))" "length (syCalls crossed) = 1"
    "counted 0 (syCalls crossed) = 1" "erred 0 (syCalls crossed) = 0"
    by code_simp+
  with apm_counts_calls [OF apm_run_reaches [OF crossed_runs(1)], of 0] show ?thesis by simp
qed

lemma status_delivered_once_witness:
  "asError (amHeap (syMonitor crossed) ! 0) = 0 \<and> asError (amHeap (syMonitor lost) ! 0) = 1 \<and>
   (\<exists>later. syDelivered lost = syDelivered crossed @ later \<and> 0 \<notin> set later)"
proof -
  have "apm_run crossed [AddTime 0 5, Judge 0 7, Enter ''a'', Swap, Average 1, Deliver] = Some lost"
    by code_simp
  from apm_run_steps [OF this] have "apm_step\<^sup>*\<^sup>* crossed lost" .
  moreover have "0 \<in> set (syDelivered crossed)"
    "asError (amHeap (syMonitor crossed) ! 0) = 0" "asError (amHeap (syMonitor lost) ! 0) = 1"
    by code_simp+
  ultimately show ?thesis
    using status_delivered_once [OF apm_run_reaches [OF crossed_runs(1)], of 0 lost] by blast
qed

end
