(* ===== verification/Service_Register.thy ===== *)
theory Service_Register
  imports Json_Head "HOL-Library.AList"
begin

text \<open>
  Registration of a service in etcd (\<open>service_register.go\<close>) and the local address it is registered
  under (\<open>GetLocalIp\<close> in \<open>utils.go\<close>). etcd is a parameter: the record \<open>etcd_client\<close> has the client's
  operations on a state of type \<open>'e\<close>, and \<open>etcd_contract\<close> says what its documentation promises of
  them. The value of a node is the JSON text of \<open>json.Marshal\<close>, with the serialiser of \<open>Json_Head\<close>.
\<close>

section \<open>Constants\<close>

definition EASYCALL_ETCD_SERVICE_PATH :: string where "EASYCALL_ETCD_SERVICE_PATH = ''/easycall/services''"
definition ETCD_HEARTBEAT_INTEVAL :: int where "ETCD_HEARTBEAT_INTEVAL = 5"
definition ETCD_CONNECT_TIMEOUT :: int where "ETCD_CONNECT_TIMEOUT = 3"

section \<open>The local address\<close>

text \<open>An interface address: an \<open>*net.IPNet\<close> with its two tests and its text, or another type.\<close>

datatype iface_addr = IPNet bool bool string | OtherAddr

record net_env =
  neHostname :: "go_error + string"
  neLookup :: "string \<Rightarrow> go_error + string list"
  neAddrs :: "go_error + iface_addr list"

fun Contains2 :: "char \<Rightarrow> string \<Rightarrow> bool" where
  "Contains2 c (a # b # s) \<longleftrightarrow> a = c \<and> b = c \<or> Contains2 c (b # s)"
| "Contains2 c _ \<longleftrightarrow> False"

fun first_ipv4 :: "iface_addr list \<Rightarrow> string" where
  "first_ipv4 [] = ''127.0.0.1''"
| "first_ipv4 (IPNet loopback to4 s # as) = (if \<not> loopback \<and> to4 then s else first_ipv4 as)"
| "first_ipv4 (OtherAddr # as) = first_ipv4 as"

definition GetLocalIp :: "net_env \<Rightarrow> string" where
  "GetLocalIp env =
     (case neHostname env of
        Inl err \<Rightarrow> ''127.0.0.1''
      | Inr name \<Rightarrow>
          (case neLookup env name of
             Inl err \<Rightarrow> ''127.0.0.1''
           | Inr ipList \<Rightarrow>
               (case find (\<lambda>ip. \<not> HasPrefix ip ''127.'' \<and> \<not> Contains2 (CHR '':'') ip) ipList of
                  Some ip \<Rightarrow> ip
                | None \<Rightarrow>
                    (case neAddrs env of Inl err \<Rightarrow> ''127.0.0.1'' | Inr addrs \<Rightarrow> first_ipv4 addrs))))"

section \<open>etcd\<close>

type_synonym lease = int

record 'e etcd_client =
  etQuery :: "string \<Rightarrow> 'e \<Rightarrow> go_error + (string \<times> string) list"   \<comment> \<open>\<open>Get\<close> with a prefix\<close>
  etPut :: "string \<Rightarrow> string \<Rightarrow> lease \<Rightarrow> 'e \<Rightarrow> go_error option \<times> 'e"
  etDelete :: "string \<Rightarrow> 'e \<Rightarrow> go_error option \<times> 'e"
  etGrant :: "int \<Rightarrow> 'e \<Rightarrow> (go_error + lease) \<times> 'e"
  etKeepAlive :: "lease \<Rightarrow> 'e \<Rightarrow> go_error option \<times> 'e"

text \<open>
  What is documented of the operations that succeed, over the stored pairs \<open>kv\<close>: a query returns
  the pairs whose key has the prefix, each once; a put stores its pair, a delete removes its key,
  and neither touches other keys; granting and keeping alive a lease store nothing.
\<close>

definition etcd_contract :: "'e etcd_client \<Rightarrow> ('e \<Rightarrow> string \<rightharpoonup> string) \<Rightarrow> bool" where
  "etcd_contract et kv \<longleftrightarrow>
     (\<forall>p s xs. etQuery et p s = Inr xs \<longrightarrow> distinct (map fst xs) \<and>
        (\<forall>k v. (k, v) \<in> set xs \<longleftrightarrow> prefix p k \<and> kv s k = Some v)) \<and>
     (\<forall>k v l s s'. etPut et k v l s = (None, s') \<longrightarrow> kv s' = (kv s)(k \<mapsto> v)) \<and>
     (\<forall>k s s'. etDelete et k s = (None, s') \<longrightarrow> kv s' = (kv s)(k := None)) \<and>
     (\<forall>t l s s'. etGrant et t s = (Inr l, s') \<longrightarrow> kv s' = kv s) \<and>
     (\<forall>l s s'. etKeepAlive et l s = (None, s') \<longrightarrow> kv s' = kv s)"

section \<open>ServiceRegister\<close>

record node_info =
  niName :: string
  niPort :: int
  niWeight :: int

text \<open>\<open>srTickers\<close> are the keepalive goroutines, with the arguments they captured.\<close>

record service_register =
  srHostMap :: "string \<rightharpoonup> node_info"
  srLeaseId :: lease
  srTimeout :: int
  srRegister :: bool
  srTickers :: "(string \<times> int \<times> int) list"

definition NewServiceRegister :: "go_error option \<Rightarrow> int \<Rightarrow> go_error + service_register" where
  "NewServiceRegister dialed timeout =
     (case dialed of Some err \<Rightarrow> Inl err
      | None \<Rightarrow> Inr \<lparr>srHostMap = Map.empty, srLeaseId = 0, srTimeout = timeout, srRegister = False, srTickers = []\<rparr>)"

definition nodePrefix :: "string \<Rightarrow> string" where
  "nodePrefix name = EASYCALL_ETCD_SERVICE_PATH @ ''/'' @ name @ ''/nodes''"

definition nodeKey :: "string \<Rightarrow> string \<Rightarrow> int \<Rightarrow> string" where
  "nodeKey name localIp port = EASYCALL_ETCD_SERVICE_PATH @ ''/'' @ name @ ''/nodes/'' @ localIp @ '':'' @ Itoa port"

definition Unregister ::
    "'e etcd_client \<Rightarrow> net_env \<Rightarrow> string \<Rightarrow> int \<Rightarrow> service_register \<Rightarrow> 'e \<Rightarrow> go_error option \<times> service_register \<times> 'e" where
  "Unregister et env name port sr s =
     (case etDelete et (nodeKey name (GetLocalIp env) port) s of
        (Some err, s) \<Rightarrow> (Some err, sr, s)
      | (None, s) \<Rightarrow> (None, sr\<lparr>srHostMap := (srHostMap sr)(name := None)\<rparr>, s))"

text \<open>\<open>json.Marshal\<close> of the map writes its keys in order.\<close>

definition node_members :: "string \<Rightarrow> int \<Rightarrow> int \<Rightarrow> int \<Rightarrow> (string \<times> json_value) list" where
  "node_members ip port weight now =
     [(''ip'', JStr ip), (''port'', JNum (Itoa port)), (''startTime'', JNum (Itoa now)), (''weight'', JNum (Itoa weight))]"

definition nodeData :: "string \<Rightarrow> int \<Rightarrow> int \<Rightarrow> int \<Rightarrow> string" where
  "nodeData ip port weight now = CHR ''{'' # enc_members (node_members ip port weight now) @ [CHR ''}'']"

definition Register ::
    "'e etcd_client \<Rightarrow> net_env \<Rightarrow> int \<Rightarrow> string \<Rightarrow> int \<Rightarrow> int \<Rightarrow> service_register \<Rightarrow> 'e
       \<Rightarrow> go_error option \<times> service_register \<times> 'e" where
  "Register et env now name port weight sr s =
     (case Unregister et env name port sr s of (_, sr, s) \<Rightarrow>
        let localIp = GetLocalIp env;
            info = \<lparr>niName = name, niPort = port, niWeight = weight\<rparr>;
            data = nodeData localIp port weight now;
            key = nodeKey name localIp port
        in (case etGrant et 10 s of
              (Inl err, s) \<Rightarrow> (Some err, sr, s)
            | (Inr lease, s) \<Rightarrow>
                (case etPut et key data lease s of
                   (Some err, s) \<Rightarrow> (Some err, sr, s)
                 | (None, s) \<Rightarrow>
                     (let sr = sr\<lparr>srLeaseId := lease\<rparr>;
                          sr = (if \<not> srRegister sr then sr\<lparr>srTickers := srTickers sr @ [(name, port, weight)]\<rparr> else sr);
                          sr = sr\<lparr>srHostMap := (srHostMap sr)(name \<mapsto> info), srRegister := True\<rparr>
                      in (None, sr, s)))))"

text \<open>One tick of a keepalive goroutine.\<close>

definition keepalive_tick ::
    "'e etcd_client \<Rightarrow> net_env \<Rightarrow> int \<Rightarrow> string \<times> int \<times> int \<Rightarrow> service_register \<Rightarrow> 'e \<Rightarrow> service_register \<times> 'e" where
  "keepalive_tick et env now = (\<lambda>(name, port, weight) sr s.
     (case etKeepAlive et (srLeaseId sr) s of
        (Some err, s) \<Rightarrow> snd (Register et env now name port weight sr s)
      | (None, s) \<Rightarrow> (sr, s)))"

section \<open>Properties\<close>

lemma Register_ok:
  assumes "Register et env now name port weight sr s = (None, sr', s')"
  obtains e sr1 s1 s2 where "Unregister et env name port sr s = (e, sr1, s1)"
    and "etGrant et 10 s1 = (Inr (srLeaseId sr'), s2)"
    and "etPut et (nodeKey name (GetLocalIp env) port) (nodeData (GetLocalIp env) port weight now) (srLeaseId sr') s2 = (None, s')"
    and "srRegister sr'" "srHostMap sr' name = Some \<lparr>niName = name, niPort = port, niWeight = weight\<rparr>"
    and "srTickers sr' = (if srRegister sr then srTickers sr else srTickers sr @ [(name, port, weight)])"
proof -
  obtain e sr1 s1 where u: "Unregister et env name port sr s = (e, sr1, s1)"
    by (metis prod_cases3)
  then have k: "srRegister sr1 = srRegister sr" "srTickers sr1 = srTickers sr"
    by (auto simp: Unregister_def split: prod.splits option.splits)
  from assms u show ?thesis
    by (auto simp: Register_def Let_def k split: prod.splits sum.splits option.splits if_splits intro!: that)
qed

text \<open>What a successful registration leaves in etcd.\<close>

lemma Register_stores:
  assumes "etcd_contract et kv" "Register et env now name port weight sr s = (None, sr', s')"
    and "fst (Unregister et env name port sr s) = None"
  shows "kv s' = (kv s)(nodeKey name (GetLocalIp env) port \<mapsto> nodeData (GetLocalIp env) port weight now)"
proof -
  obtain e sr1 s1 s2 where u: "Unregister et env name port sr s = (e, sr1, s1)"
    and g: "etGrant et 10 s1 = (Inr (srLeaseId sr'), s2)"
    and p: "etPut et (nodeKey name (GetLocalIp env) port) (nodeData (GetLocalIp env) port weight now) (srLeaseId sr') s2 = (None, s')"
    by (rule Register_ok [OF assms(2)])
  from u assms(3) have "etDelete et (nodeKey name (GetLocalIp env) port) s = (None, s1)"
    by (auto simp: Unregister_def split: prod.splits option.splits)
  with g p assms(1) show ?thesis
    unfolding etcd_contract_def by (metis fun_upd_upd)
qed

lemma failed_keepalive_registers:
  assumes "etcd_contract et kv" "etKeepAlive et (srLeaseId sr) s = (Some err, s1)"
    and "Register et env now name port weight sr s1 = (None, sr', s')"
    and "fst (Unregister et env name port sr s1) = None"
  shows "keepalive_tick et env now (name, port, weight) sr s = (sr', s') \<and>
    kv s' = (kv s1)(nodeKey name (GetLocalIp env) port \<mapsto> nodeData (GetLocalIp env) port weight now)"
  using assms Register_stores [OF assms(1,3,4)] by (simp add: keepalive_tick_def)

text \<open>
  When a keepalive fails, as it does once the lease has expired, the goroutine registers the
  service again: if that succeeds the node is back in etcd, under the lease it was just granted,
  and the goroutine that will renew it is still there.
\<close>

theorem keepalive_restores_node:
  assumes "etcd_contract et kv" "etKeepAlive et (srLeaseId sr) s = (Some err, s1)"
    and "Register et env now name port weight sr s1 = (None, sr', s')"
    and "fst (Unregister et env name port sr s1) = None"
    and "srRegister sr" "(name, port, weight) \<in> set (srTickers sr)"
  shows "keepalive_tick et env now (name, port, weight) sr s = (sr', s') \<and>
    kv s' = (kv s1)(nodeKey name (GetLocalIp env) port \<mapsto> nodeData (GetLocalIp env) port weight now) \<and>
    (\<exists>s2 s3. etGrant et 10 s2 = (Inr (srLeaseId sr'), s3)) \<and> srTickers sr' = srTickers sr"
  using failed_keepalive_registers [OF assms(1-4)] assms(5) by (auto intro: Register_ok [OF assms(3)])

text \<open>
  Unregistering stops no keepalive goroutine: the node is gone, but the goroutine stays, and its
  next failing keepalive registers the service again.
\<close>

theorem unregistered_service_comes_back:
  assumes "etcd_contract et kv" "Unregister et env name port sr s = (None, sr1, s1)"
    and "(name, port, weight) \<in> set (srTickers sr)"
    and "etKeepAlive et (srLeaseId sr1) s1 = (Some err, s2)"
    and "Register et env now name port weight sr1 s2 = (None, sr', s')"
    and "fst (Unregister et env name port sr1 s2) = None"
  shows "kv s1 (nodeKey name (GetLocalIp env) port) = None \<and> (name, port, weight) \<in> set (srTickers sr1) \<and>
    keepalive_tick et env now (name, port, weight) sr1 s1 = (sr', s') \<and>
    kv s' (nodeKey name (GetLocalIp env) port) = Some (nodeData (GetLocalIp env) port weight now)"
proof -
  have "etDelete et (nodeKey name (GetLocalIp env) port) s = (None, s1)" "srTickers sr1 = srTickers sr"
    using assms(2) by (auto simp: Unregister_def split: prod.splits option.splits)
  with assms(1) have "kv s1 (nodeKey name (GetLocalIp env) port) = None"
    unfolding etcd_contract_def by (metis fun_upd_same)
  with failed_keepalive_registers [OF assms(1,4,5,6)] \<open>srTickers sr1 = srTickers sr\<close> assms(3) show ?thesis
    by simp
qed

text \<open>
  One register for two services: the only keepalive goroutine is the first service's, and the lease
  it renews is the second's; while that works nothing renews or rewrites the first one's node.
\<close>

lemma second_service_takes_the_lease:
  assumes "\<not> srRegister sr" "srTickers sr = []"
    and "Register et env now a portA weightA sr s = (None, sr1, s1)"
    and "Register et env now' b portB weightB sr1 s1 = (None, sr2, s2)"
  shows "srTickers sr2 = [(a, portA, weightA)] \<and>
    (\<exists>s3 s4. etGrant et 10 s3 = (Inr (srLeaseId sr2), s4) \<and>
       etPut et (nodeKey b (GetLocalIp env) portB) (nodeData (GetLocalIp env) portB weightB now') (srLeaseId sr2) s4 = (None, s2)) \<and>
    (\<forall>t s3 s4. etKeepAlive et (srLeaseId sr2) s3 = (None, s4) \<longrightarrow>
       keepalive_tick et env t (a, portA, weightA) sr2 s3 = (sr2, s4))"
proof -
  have "srTickers sr1 = [(a, portA, weightA)]" "srRegister sr1"
    using assms(1,2) by (auto intro: Register_ok [OF assms(3)])
  then have "srTickers sr2 = [(a, portA, weightA)]"
    by (auto intro: Register_ok [OF assms(4)])
  moreover obtain s3 s4 where "etGrant et 10 s3 = (Inr (srLeaseId sr2), s4)"
    "etPut et (nodeKey b (GetLocalIp env) portB) (nodeData (GetLocalIp env) portB weightB now') (srLeaseId sr2) s4 = (None, s2)"
    by (rule Register_ok [OF assms(4)])
  ultimately show ?thesis
    by (auto simp: keepalive_tick_def)
qed

section \<open>Witnesses\<close>

text \<open>An etcd that keeps its pairs in a list and lets every lease expire at once.\<close>

definition sample_etcd :: "(string \<times> string) list etcd_client" where
  "sample_etcd = \<lparr>etQuery = (\<lambda>p s. Inr (filter (\<lambda>(k, v). prefix p k) (AList.clearjunk s))),
     etPut = (\<lambda>k v l s. (None, (k, v) # s)), etDelete = (\<lambda>k s. (None, AList.delete k s)),
     etGrant = (\<lambda>t s. (Inr (int (length s) + 1), s)),
     etKeepAlive = (\<lambda>l s. (Some ''requested lease not found'', s))\<rparr>"

lemma sample_etcd_contract: "etcd_contract sample_etcd map_of"
proof -
  have "(k, v) \<in> set (AList.clearjunk s) \<longleftrightarrow> map_of s k = Some v" for k v :: string and s
    using map_of_eq_Some_iff [OF distinct_clearjunk, of s k v] by (simp add: map_of_clearjunk eq_commute)
  then show ?thesis
    by (auto simp: etcd_contract_def sample_etcd_def delete_conv' distinct_map_filter [unfolded comp_def]
        intro!: distinct_clearjunk)
qed

definition sample_env :: net_env where
  "sample_env = \<lparr>neHostname = Inr ''h'', neLookup = (\<lambda>_. Inr [''127.0.1.1'', ''10.0.0.5'']), neAddrs = Inr []\<rparr>"

definition sample_register :: service_register where
  "sample_register = fst (snd (Register sample_etcd sample_env 7 ''profile'' 8001 100
     (projr (NewServiceRegister None 3)) []))"

definition sample_store :: "(string \<times> string) list" where
  "sample_store = snd (snd (Register sample_etcd sample_env 7 ''profile'' 8001 100
     (projr (NewServiceRegister None 3)) []))"

lemma sample_ip: "GetLocalIp sample_env = ''10.0.0.5''"
  by code_simp

lemma sample_registered:
  "srRegister sample_register" "(''profile'', 8001, 100) \<in> set (srTickers sample_register)"
  "sample_store = [(nodeKey ''profile'' ''10.0.0.5'' 8001, nodeData ''10.0.0.5'' 8001 100 7)]"
  by (simp_all add: sample_register_def sample_store_def Register_def Unregister_def sample_etcd_def
      NewServiceRegister_def sample_ip Let_def)

lemma keepalive_restores_node_witness:
  "\<exists>sr' s'. keepalive_tick sample_etcd sample_env 9 (''profile'', 8001, 100) sample_register [] = (sr', s') \<and>
     map_of s' (nodeKey ''profile'' ''10.0.0.5'' 8001) = Some (nodeData ''10.0.0.5'' 8001 100 9)"
proof -
  obtain e sr' s' where r: "Register sample_etcd sample_env 9 ''profile'' 8001 100 sample_register [] = (e, sr', s')"
    by (metis prod_cases3)
  then have "e = None"
    by (auto simp: Register_def Unregister_def sample_etcd_def Let_def split: if_splits)
  with keepalive_restores_node [OF sample_etcd_contract _ r [unfolded \<open>e = None\<close>], of "[]"] sample_registered
  show ?thesis
    by (simp add: sample_ip) (simp add: sample_etcd_def Unregister_def)
qed

lemma unregistered_service_comes_back_witness:
  "\<exists>sr1 s1 sr' s'. Unregister sample_etcd sample_env ''profile'' 8001 sample_register sample_store = (None, sr1, s1) \<and>
     map_of s1 (nodeKey ''profile'' ''10.0.0.5'' 8001) = None \<and>
     keepalive_tick sample_etcd sample_env 9 (''profile'', 8001, 100) sr1 s1 = (sr', s') \<and>
     map_of s' (nodeKey ''profile'' ''10.0.0.5'' 8001) = Some (nodeData ''10.0.0.5'' 8001 100 9)"
proof -
  obtain sr1 s1 where u: "Unregister sample_etcd sample_env ''profile'' 8001 sample_register sample_store = (None, sr1, s1)"
    by (simp add: Unregister_def sample_etcd_def)
  obtain e sr' s' where r: "Register sample_etcd sample_env 9 ''profile'' 8001 100 sr1 s1 = (e, sr', s')"
    by (metis prod_cases3)
  then have "e = None"
    by (auto simp: Register_def Unregister_def sample_etcd_def Let_def split: if_splits)
  with unregistered_service_comes_back [OF sample_etcd_contract u sample_registered(2) _ r [unfolded \<open>e = None\<close>]] u
  show ?thesis
    by (simp add: sample_ip) (simp add: sample_etcd_def Unregister_def)
qed

end
