(* ===== verification/Node_Manager.thy ===== *)
theory Node_Manager
  imports Service_Register Easy_Node
begin

text \<open>
  The client's list of the nodes of a service (\<open>node_manager.go\<close>): it is loaded from etcd on the
  first use and on every change etcd reports, and a service that could not be loaded is not looked
  up again for five seconds. A node's value is decoded by \<open>json.Unmarshal\<close>, with the parser of
  \<open>Json_Head\<close>. Nodes are allocated in a store, because the load balancer and the sessions share them.
\<close>

section \<open>Decoding a node\<close>

definition set_int32 :: "json_value \<Rightarrow> (int \<Rightarrow> 'a) \<Rightarrow> 'a \<Rightarrow> go_error + 'a" where
  "set_int32 v f h =
     (case v of
        JNum n \<Rightarrow> (case ParseInt n of (i, None) \<Rightarrow> if in_i32 i then Inr (f i) else Inl mismatch | _ \<Rightarrow> Inl mismatch)
      | JNull \<Rightarrow> Inr h | _ \<Rightarrow> Inl mismatch)"

definition set_node_member :: "string \<Rightarrow> json_value \<Rightarrow> node \<Rightarrow> go_error + node" where
  "set_node_member k v nd =
     (let k = fold_case k in
      if k = ''ip'' then set_text v (\<lambda>s. nd\<lparr>Ip := s\<rparr>) nd
      else if k = ''port'' then set_int v (\<lambda>i. nd\<lparr>Port := i\<rparr>) nd
      else if k = ''weight'' then set_int v (\<lambda>i. nd\<lparr>Weight := i\<rparr>) nd
      else if k = ''active'' then set_int32 v (\<lambda>i. nd\<lparr>Active := i\<rparr>) nd
      else Inr nd)"

definition empty_node :: node where
  "empty_node = \<lparr>Ip = [], Port = 0, Weight = 0, Active = 0\<rparr>"

definition Unmarshal_node :: "string \<Rightarrow> go_error + node" where
  "Unmarshal_node s =
     (case parse_value (Suc (length s)) s of
        None \<Rightarrow> Inl ''invalid character or EOF''
      | Some (v, r) \<Rightarrow>
          if skip_ws r \<noteq> [] then Inl ''invalid character after top-level value''
          else (case v of
             JObj kvs \<Rightarrow> set_members set_node_member kvs True empty_node
           | JNull \<Rightarrow> Inr empty_node
           | _ \<Rightarrow> Inl mismatch))"

section \<open>The node manager\<close>

definition ZK_NOT_EXSIT_NODE_CACHE_TIME :: int where "ZK_NOT_EXSIT_NODE_CACHE_TIME = 5000"

record node_manager =
  nmExsit :: int
  nmServiceName :: string
  nmNodeList :: "node_ref list option"   \<comment> \<open>\<open>None\<close> is the nil slice\<close>
  nmTimeout :: int
  nmWatched :: bool

record node_store =
  nsHeap :: node_heap
  nsNext :: nat

definition NewNodeManager :: "go_error option \<Rightarrow> string \<Rightarrow> int \<Rightarrow> go_error + node_manager" where
  "NewNodeManager dialed serviceName timeout =
     (case dialed of Some err \<Rightarrow> Inl err
      | None \<Rightarrow> Inr \<lparr>nmExsit = 0, nmServiceName = serviceName, nmNodeList = None, nmTimeout = timeout, nmWatched = False\<rparr>)"

definition alloc_node :: "node \<Rightarrow> node_store \<Rightarrow> node_ref \<times> node_store" where
  "alloc_node nd ns = (nsNext ns, \<lparr>nsHeap = (nsHeap ns)(nsNext ns := nd), nsNext = Suc (nsNext ns)\<rparr>)"

fun node_loop :: "string list \<Rightarrow> node_store \<Rightarrow> node_ref list \<times> node_store" where
  "node_loop [] ns = ([], ns)"
| "node_loop (v # vs) ns =
     (case Unmarshal_node v of
        Inl err \<Rightarrow> node_loop vs ns
      | Inr node \<Rightarrow>
          (let (p, ns) = alloc_node node ns; (ps, ns) = node_loop vs ns in (p # ps, ns)))"

text \<open>
  \<open>loadServiceNode\<close>; \<open>resp\<close> is what the query returns. The watch goroutine it starts the first time
  runs it again on every change etcd reports.
\<close>

definition loadServiceNode ::
    "go_error + (string \<times> string) list \<Rightarrow> node_manager \<Rightarrow> node_store \<Rightarrow> go_error option \<times> node_manager \<times> node_store" where
  "loadServiceNode resp nm ns =
     (case resp of
        Inl err \<Rightarrow> (Some err, nm, ns)
      | Inr kvs \<Rightarrow>
          (let nm = (if \<not> nmWatched nm then nm\<lparr>nmWatched := True\<rparr> else nm);
               (nodeList, ns) = node_loop (map snd kvs) ns
           in (None, nm\<lparr>nmNodeList := Some nodeList\<rparr>, ns)))"

text \<open>
  \<open>getNodes\<close> at time \<open>timeNow\<close>; \<open>later\<close> is the clock after the query. \<open>Inr None\<close> stands for a nil
  list without an error.
\<close>

definition getNodes ::
    "(string \<Rightarrow> go_error + (string \<times> string) list) \<Rightarrow> int \<Rightarrow> int \<Rightarrow> node_manager \<Rightarrow> node_store
       \<Rightarrow> (go_error + node_ref list option) \<times> node_manager \<times> node_store" where
  "getNodes query timeNow later nm ns =
     (let path = nodePrefix (nmServiceName nm) in
      case nmNodeList nm of
        None \<Rightarrow>
          if i64 (nmExsit nm + ZK_NOT_EXSIT_NODE_CACHE_TIME) > timeNow then (Inl ''zk node not exsit'', nm, ns)
          else (case loadServiceNode (query path) nm ns of
                  (err, nm, ns) \<Rightarrow>
                    (case nmNodeList nm of
                       None \<Rightarrow> (case err of Some e \<Rightarrow> Inl e | None \<Rightarrow> Inr None, nm\<lparr>nmExsit := later\<rparr>, ns)
                     | Some nodes \<Rightarrow> (Inr (Some nodes), nm, ns)))
      | Some nodes \<Rightarrow>
          if nodes = [] then (Inl (''service '' @ nmServiceName nm @ '' not found''), nm, ns)
          else (Inr (Some nodes), nm, ns))"

section \<open>Loading\<close>

text \<open>The nodes a list of values describes, in order; the others are skipped.\<close>

definition decoded :: "string list \<Rightarrow> node list" where
  "decoded vs = concat (map (\<lambda>v. case Unmarshal_node v of Inl _ \<Rightarrow> [] | Inr nd \<Rightarrow> [nd]) vs)"

lemma node_loop_spec:
  assumes "node_loop vs ns = (ps, ns')"
  shows "ps = [nsNext ns ..< nsNext ns + length ps] \<and> map (nsHeap ns') ps = decoded vs \<and>
    nsNext ns' = nsNext ns + length ps \<and> (\<forall>p < nsNext ns. nsHeap ns' p = nsHeap ns p)"
  using assms
proof (induction vs arbitrary: ns ps ns')
  case (Cons v vs)
  show ?case
  proof (cases "Unmarshal_node v")
    case (Inl e)
    with Cons show ?thesis by (simp add: decoded_def)
  next
    case (Inr nd)
    let ?ns = "\<lparr>nsHeap = (nsHeap ns)(nsNext ns := nd), nsNext = Suc (nsNext ns)\<rparr>"
    obtain qs where q: "node_loop vs ?ns = (qs, ns')" "ps = nsNext ns # qs"
      using Cons.prems Inr by (auto simp: alloc_node_def split: prod.splits)
    from Cons.IH [OF q(1)] have i: "qs = [Suc (nsNext ns) ..< Suc (nsNext ns) + length qs]"
      "map (nsHeap ns') qs = decoded vs" "nsNext ns' = Suc (nsNext ns) + length qs"
      "\<forall>p < Suc (nsNext ns). nsHeap ns' p = nsHeap ?ns p" by simp_all
    have "[nsNext ns ..< nsNext ns + Suc (length qs)] = nsNext ns # [Suc (nsNext ns) ..< Suc (nsNext ns) + length qs]"
      by (simp add: upt_conv_Cons del: upt_Suc)
    with i(1) q(2) have "[nsNext ns ..< nsNext ns + length ps] = nsNext ns # qs" by simp
    moreover have "nsHeap ns' (nsNext ns) = nd" using i(4) by simp
    ultimately show ?thesis
      using i q(2) Inr by (auto simp: decoded_def)
  qed
qed (simp add: decoded_def)

lemma getNodes_load:
  assumes "nmNodeList nm = None" "i64 (nmExsit nm + 5000) \<le> timeNow"
    and "query (nodePrefix (nmServiceName nm)) = Inr kvs"
  shows "\<exists>ps ns'. getNodes query timeNow later nm ns =
      (Inr (Some ps), nm\<lparr>nmWatched := True, nmNodeList := Some ps\<rparr>, ns') \<and>
    map (nsHeap ns') ps = decoded (map snd kvs)"
proof -
  obtain ps ns' where l: "node_loop (map snd kvs) ns = (ps, ns')" by fastforce
  with node_loop_spec [OF l] assms show ?thesis
    by (cases "nmWatched nm")
       (simp_all add: getNodes_def loadServiceNode_def ZK_NOT_EXSIT_NODE_CACHE_TIME_def Let_def)
qed

section \<open>From the registry to the list\<close>

lemma Unmarshal_nodeData:
  assumes "valid_utf8 ip" "in_i64 port" "in_i64 weight" "in_i64 now"
  shows "Unmarshal_node (nodeData ip port weight now) = Inr \<lparr>Ip = ip, Port = port, Weight = weight, Active = 0\<rparr>"
proof -
  let ?m = "node_members ip port weight now" and ?s = "nodeData ip port weight now"
  have f: "\<forall>(k, v) \<in> set ?m. flat v"
    using assms by (simp add: node_members_def flat_numbers del: flat.simps(2))
  have "valid_utf8 ''ip''" "valid_utf8 ''port''" "valid_utf8 ''startTime''" "valid_utf8 ''weight''" by code_simp+
  with f have "\<forall>(k, v) \<in> set ?m. valid_utf8 k \<and> flat v" by (simp add: node_members_def)
  moreover have "length ?m < length ?s"
    using length_enc_members [of ?m] by (simp add: nodeData_def)
  ultimately have "parse_value (Suc (length ?s)) ?s = Some (JObj ?m, [])"
    using parse_object [of ?m "length ?s" "[]"] by (simp add: nodeData_def node_members_def del: parse_value.simps)
  moreover have "fold_case ''ip'' = ''ip''" "fold_case ''port'' = ''port''" "fold_case ''startTime'' = ''starttime''"
    "fold_case ''weight'' = ''weight''" by code_simp+
  ultimately show ?thesis
    using assms
    by (simp add: Unmarshal_node_def node_members_def set_node_member_def set_text_def set_int_def ParseInt_Itoa
        empty_node_def skip_ws_def del: parse_value.simps fold_case.simps)
qed

text \<open>
  C31: what a service registers is what a client finds: after a registration, the first look-up of
  that service's nodes returns, next to what else is there, a node with the registered address, port
  and weight and no pending request.
\<close>

theorem registered_node_is_found:
  assumes "etcd_contract et kv" "Register et env now name port weight sr s = (None, sr', s')"
    and "fst (Unregister et env name port sr s) = None"
    and "valid_utf8 (GetLocalIp env)" "in_i64 port" "in_i64 weight" "in_i64 now"
    and "NewNodeManager None name timeout = Inr nm" "5000 \<le> timeNow"
    and "etQuery et (nodePrefix name) s' = Inr kvs"
  shows "\<exists>ps nm' ns'. getNodes (\<lambda>p. etQuery et p s') timeNow later nm ns = (Inr (Some ps), nm', ns') \<and>
    (\<exists>p \<in> set ps. nsHeap ns' p = \<lparr>Ip = GetLocalIp env, Port = port, Weight = weight, Active = 0\<rparr>)"
proof -
  let ?data = "nodeData (GetLocalIp env) port weight now" and ?nd = "\<lparr>Ip = GetLocalIp env, Port = port, Weight = weight, Active = 0\<rparr>"
  have "prefix (nodePrefix name) (nodeKey name (GetLocalIp env) port)"
    by (simp add: nodePrefix_def nodeKey_def prefix_def)
  with Register_stores [OF assms(1-3)] assms(1,10) have "(nodeKey name (GetLocalIp env) port, ?data) \<in> set kvs"
    unfolding etcd_contract_def by (metis fun_upd_same)
  then have "?data \<in> set (map snd kvs)" by force
  with Unmarshal_nodeData [OF assms(4-7)] have nd: "?nd \<in> set (decoded (map snd kvs))"
    by (force simp: decoded_def)
  have "nmNodeList nm = None" "i64 (nmExsit nm + 5000) \<le> timeNow" "nmServiceName nm = name"
    using assms(8,9) by (auto simp: NewNodeManager_def i64_id)
  then obtain ps ns' where g: "getNodes (\<lambda>p. etQuery et p s') timeNow later nm ns =
      (Inr (Some ps), nm\<lparr>nmWatched := True, nmNodeList := Some ps\<rparr>, ns')"
    and m: "map (nsHeap ns') ps = decoded (map snd kvs)"
    using getNodes_load [of nm timeNow "\<lambda>p. etQuery et p s'" kvs later ns] assms(10) by auto
  from nd have "?nd \<in> set (map (nsHeap ns') ps)" by (simp only: m)
  with g show ?thesis by fastforce
qed

lemma before_separator:
  "c \<notin> set xs \<Longrightarrow> c \<notin> set ys \<Longrightarrow> xs @ c # as = ys @ c # bs \<Longrightarrow> xs = ys"
proof (induction xs arbitrary: ys)
  case Nil
  then show ?case by (cases ys) auto
next
  case (Cons x xs)
  then show ?case by (cases ys) auto
qed

text \<open>
  A client that looks up a service whose name has no slash gets the nodes of that service alone:
  the key of another service's node does not have the prefix.
\<close>

theorem nodes_of_other_services_not_found:
  assumes "CHR ''/'' \<notin> set name" "CHR ''/'' \<notin> set other"
    and "prefix (nodePrefix name) (nodeKey other ip port)"
  shows "name = other"
proof -
  from assms(3) obtain r where "name @ ''/nodes'' @ r = other @ ''/nodes/'' @ ip @ '':'' @ Itoa port"
    by (auto simp: nodePrefix_def nodeKey_def prefix_def)
  then have "name @ CHR ''/'' # (''nodes'' @ r) = other @ CHR ''/'' # (''nodes/'' @ ip @ '':'' @ Itoa port)"
    by simp
  with assms(1,2) show ?thesis by (rule before_separator)
qed

text \<open>
  For five seconds after a look-up that failed the service is not looked up again: \<open>getNodes\<close>
  answers with an error and changes nothing, whatever etcd holds by then.
\<close>

theorem failed_lookup_is_cached:
  assumes "getNodes query timeNow later nm ns = (Inl err, nm1, ns1)" "nmNodeList nm = None"
    and "i64 (nmExsit nm + 5000) \<le> timeNow"
    and "in_i64 (later + 5000)" "t < later + 5000"
  shows "getNodes query' t later' nm1 ns1 = (Inl ''zk node not exsit'', nm1, ns1)"
proof -
  obtain e where "query (nodePrefix (nmServiceName nm)) = Inl e"
    using assms(1-3)
    by (cases "query (nodePrefix (nmServiceName nm))")
       (auto simp: getNodes_def loadServiceNode_def ZK_NOT_EXSIT_NODE_CACHE_TIME_def Let_def split: prod.splits)
  then have "nm1 = nm\<lparr>nmExsit := later\<rparr>"
    using assms(1-3) by (simp add: getNodes_def loadServiceNode_def ZK_NOT_EXSIT_NODE_CACHE_TIME_def)
  with assms(2,4,5) show ?thesis
    by (simp add: getNodes_def ZK_NOT_EXSIT_NODE_CACHE_TIME_def i64_id)
qed

text \<open>
  A service without nodes: the first look-up returns the empty list without an error, every later
  one an error, until etcd reports a change.
\<close>

lemma empty_service_first_lookup:
  assumes "nmNodeList nm = None" "i64 (nmExsit nm + 5000) \<le> timeNow" "query (nodePrefix (nmServiceName nm)) = Inr []"
    and "getNodes query timeNow later nm ns = (r, nm1, ns1)"
  shows "r = Inr (Some [])"
    and "fst (getNodes query' t later' nm1 ns1) = Inl (''service '' @ nmServiceName nm @ '' not found'')"
proof -
  obtain ps ns' where g: "getNodes query timeNow later nm ns = (Inr (Some ps), nm\<lparr>nmWatched := True, nmNodeList := Some ps\<rparr>, ns')"
    and "map (nsHeap ns') ps = decoded (map snd [])"
    using getNodes_load [of nm timeNow query "[]" later ns] assms(1-3) by auto
  then have "ps = []" by (simp add: decoded_def)
  with g assms(4) show "r = Inr (Some [])"
    and "fst (getNodes query' t later' nm1 ns1) = Inl (''service '' @ nmServiceName nm @ '' not found'')"
    by (auto simp: getNodes_def)
qed

text \<open>A reload that fails keeps the list, and one that succeeds replaces it.\<close>

lemma reload_list:
  "loadServiceNode (Inl e) nm ns = (Some e, nm, ns)"
  "loadServiceNode (Inr kvs) nm ns = (None, nm\<lparr>nmWatched := True, nmNodeList := Some (fst (node_loop (map snd kvs) ns))\<rparr>,
     snd (node_loop (map snd kvs) ns))"
  by (simp_all add: loadServiceNode_def Let_def split: prod.split)

section \<open>Witnesses\<close>

definition empty_store :: node_store where
  "empty_store = \<lparr>nsHeap = (\<lambda>_. empty_node), nsNext = 0\<rparr>"

lemma registered_node_is_found_witness:
  "\<exists>ps nm' ns'. getNodes (\<lambda>p. etQuery sample_etcd p sample_store) 5000 5001
       (projr (NewNodeManager None ''profile'' 3)) empty_store = (Inr (Some ps), nm', ns') \<and>
     (\<exists>p \<in> set ps. nsHeap ns' p = \<lparr>Ip = ''10.0.0.5'', Port = 8001, Weight = 100, Active = 0\<rparr>)"
proof -
  have v: "valid_utf8 ''10.0.0.5''" by code_simp
  have r: "Register sample_etcd sample_env 7 ''profile'' 8001 100 (projr (NewServiceRegister None 3)) [] =
      (None, sample_register, sample_store)"
    by (auto simp: sample_register_def sample_store_def Register_def Unregister_def sample_etcd_def Let_def)
  obtain kvs where q: "etQuery sample_etcd (nodePrefix ''profile'') sample_store = Inr kvs"
    by (simp add: sample_etcd_def)
  have n: "NewNodeManager None ''profile'' 3 = Inr (projr (NewNodeManager None ''profile'' 3))"
    by (simp add: NewNodeManager_def)
  show ?thesis
    using registered_node_is_found [OF sample_etcd_contract r _ _ _ _ _ n _ q, of 5000 5001 empty_store] v
    by (simp add: sample_ip) (simp add: Unregister_def sample_etcd_def)
qed

lemma nodes_of_other_services_not_found_witness:
  "prefix (nodePrefix ''a'') (nodeKey ''a'' ''10.0.0.5'' 1) \<and> ''a'' = ''a''"
proof -
  have p: "prefix (nodePrefix ''a'') (nodeKey ''a'' ''10.0.0.5'' 1)"
    by (simp add: nodePrefix_def nodeKey_def)
  with nodes_of_other_services_not_found [OF _ _ p] show ?thesis by simp
qed

lemma failed_lookup_is_cached_witness:
  "\<exists>nm1 ns1. getNodes (\<lambda>_. Inl ''timeout'') 6000 9000 (projr (NewNodeManager None ''a'' 3)) empty_store =
       (Inl ''timeout'', nm1, ns1) \<and>
     getNodes (\<lambda>_. Inr []) 13999 14000 nm1 ns1 = (Inl ''zk node not exsit'', nm1, ns1)"
proof -
  let ?nm = "projr (NewNodeManager None ''a'' 3)"
  have e: "i64 5000 = 5000" by (simp add: i64_id)
  obtain nm1 ns1 where g: "getNodes (\<lambda>_. Inl ''timeout'') 6000 9000 ?nm empty_store = (Inl ''timeout'', nm1, ns1)"
    by (simp add: getNodes_def NewNodeManager_def loadServiceNode_def ZK_NOT_EXSIT_NODE_CACHE_TIME_def e)
  from failed_lookup_is_cached [OF g, of 13999 "\<lambda>_. Inr []" 14000] g show ?thesis
    by (auto simp: NewNodeManager_def e)
qed

end
