(* ===== verification/Service_Client.thy ===== *)
theory Service_Client
  imports Session_Manager Easy_Connection Load_Balancer Node_Manager Service_Handler
begin

text \<open>
  The client of one service (\<open>service_client.go\<close>, except \<open>Process\<close>, which is in \<open>Session_Manager\<close>):
  a request goes from the node list through the load balancer and the connection pool to a session
  and a package on a connection, and its answer becomes a result or an error. The model follows
  one goroutine through the components; what other goroutines do meanwhile is the subject of their
  own theories. \<open>client_env\<close> is what the network, etcd, the clock and \<open>rand\<close> answer on the way.
\<close>

section \<open>The client\<close>

definition POOL_MIN_SIZE :: int where "POOL_MIN_SIZE = 10"
definition POOL_ACTIVE_TIME :: int where "POOL_ACTIVE_TIME = 1800"
definition EASY_CONNECT_TIMEOUT :: int where "EASY_CONNECT_TIMEOUT = 3"

record 'b service_client =
  clSessionMgr :: "'b session_manager"        \<comment> \<open>with the heap of the nodes\<close>
  clNextNode :: nat                           \<comment> \<open>the first free address of that heap\<close>
  clNodeMgr :: "node_manager option"
  clPoolMap :: "string \<rightharpoonup> easy_connection generic_pool"
  clLoadBalanceType :: int
  clPoolSize :: int
  clSeq :: uint64
  clServiceName :: string
  clLb :: load_balancer
  clSent :: "(string \<times> conn_ref \<times> byte list) list"  \<comment> \<open>calls of \<open>Send\<close>: pool, connection, package\<close>

record client_env =
  cePath :: "string \<Rightarrow> go_error + (string \<times> string) list"  \<comment> \<open>what etcd returns for a prefix\<close>
  ceTime :: int
  ceLater :: int
  ceDraw :: "int \<Rightarrow> int"
  ceDial :: "string \<Rightarrow> int \<Rightarrow> nat \<Rightarrow> go_error option"
  ceNow :: int
  ceFuel :: nat
  ceArrivals :: "nat \<Rightarrow> received"

text \<open>The argument \<open>poolSize\<close> is not used.\<close>

definition NewServiceClient :: "go_error option \<Rightarrow> string \<Rightarrow> int \<Rightarrow> int \<Rightarrow> 'b service_client" where
  "NewServiceClient dialed serviceName poolSize loadBalanceType =
     \<lparr>clSessionMgr = sm_init (\<lambda>_. empty_node), clNextNode = 0,
      clNodeMgr = (case NewNodeManager dialed serviceName (ETCD_CONNECT_TIMEOUT * 10 ^ 9) of Inl err \<Rightarrow> None | Inr nm \<Rightarrow> Some nm),
      clPoolMap = Map.empty, clLoadBalanceType = loadBalanceType, clPoolSize = 0, clSeq = 0,
      clServiceName = serviceName, clLb = NewLoadBalancer, clSent = []\<rparr>"

definition node_of :: "node_ref \<Rightarrow> 'b service_client \<Rightarrow> node" where
  "node_of p ec = smNodes (clSessionMgr ec) p"

section \<open>RequestAsyncWithHead\<close>

definition call_getNodes ::
    "client_env \<Rightarrow> node_manager \<Rightarrow> 'b service_client \<Rightarrow> (go_error + node_ref list option) \<times> 'b service_client" where
  "call_getNodes env nm ec =
     (case getNodes (cePath env) (ceTime env) (ceLater env) nm
             \<lparr>nsHeap = smNodes (clSessionMgr ec), nsNext = clNextNode ec\<rparr> of
        (r, nm, ns) \<Rightarrow>
          (r, ec\<lparr>clNodeMgr := Some nm, clNextNode := nsNext ns,
                 clSessionMgr := (clSessionMgr ec)\<lparr>smNodes := nsHeap ns\<rparr>\<rparr>))"

text \<open>The node for a request, or the error of the function; a panic of the load balancer passes.\<close>

definition choose_node ::
    "client_env \<Rightarrow> easy_head \<Rightarrow> 'b service_client \<Rightarrow> (system_error + node_ref) outcome \<times> 'b service_client" where
  "choose_node env head ec =
     (if GetService head \<noteq> clServiceName ec then
        (Ret (Inl (NewSystemError ERROR_INTERNAL_ERROR ''service name is different from init'')), ec)
      else case clNodeMgr ec of
        None \<Rightarrow> (Ret (Inl (NewSystemError ERROR_INTERNAL_ERROR ''nodemgr is nil,maybe etcd connect fail'')), ec)
      | Some nm \<Rightarrow>
          let lbType = (if GetRouteKey head \<noteq> '''' then LB_HASH else clLoadBalanceType ec) in
          (case call_getNodes env nm ec of
             (Inl err, ec) \<Rightarrow> (Ret (Inl (NewSystemError ERROR_SERVICE_NOT_FOUND err)), ec)
           | (Inr nodeList, ec) \<Rightarrow>
               let lb = SetNodes (case nodeList of None \<Rightarrow> [] | Some ps \<Rightarrow> ps) (clLb ec) in
               (case GetNode (smNodes (clSessionMgr ec)) (ceDraw env) lbType (GetRouteKey head) lb of
                  Panic p \<Rightarrow> (Panic p, ec\<lparr>clLb := lb\<rparr>)
                | Ret (Inl err, lb) \<Rightarrow> (Ret (Inl (NewSystemError ERROR_INTERNAL_ERROR err)), ec\<lparr>clLb := lb\<rparr>)
                | Ret (Inr node, lb) \<Rightarrow> (Ret (Inr node), ec\<lparr>clLb := lb\<rparr>))))"

text \<open>The factory of a node's pool.\<close>

definition connFactory :: "client_env \<Rightarrow> node \<Rightarrow> easy_connection conn_factory" where
  "connFactory env nd = (\<lambda>n. Connect (ceDial env (Ip nd) (Port nd) n) (ceNow env) (client_connection (ceNow env)))"

definition pool_key :: "node \<Rightarrow> string" where
  "pool_key nd = Ip nd @ '':'' @ Itoa (Port nd)"

definition get_pool :: "client_env \<Rightarrow> node \<Rightarrow> 'b service_client \<Rightarrow> easy_connection generic_pool outcome" where
  "get_pool env nd ec =
     (case clPoolMap ec (pool_key nd) of
        None \<Rightarrow> NewGenericPool (i32 POOL_MIN_SIZE) (i32 (clPoolSize ec)) (10 ^ 9 * POOL_ACTIVE_TIME) (connFactory env nd)
      | Some pool \<Rightarrow> Ret pool)"

definition put_pool :: "node \<Rightarrow> easy_connection generic_pool \<Rightarrow> 'b service_client \<Rightarrow> 'b service_client" where
  "put_pool nd pool ec = ec\<lparr>clPoolMap := (clPoolMap ec)(pool_key nd \<mapsto> pool)\<rparr>"

text \<open>
  A connection for the node, already released again. \<open>None\<close>: the fuel ran out, or \<open>Release\<close> blocks.
\<close>

definition borrow ::
    "client_env \<Rightarrow> node \<Rightarrow> 'b service_client \<Rightarrow> ((system_error + conn_ref) outcome \<times> 'b service_client) option" where
  "borrow env nd ec =
     (case get_pool env nd ec of
        Panic p \<Rightarrow> Some (Panic p, ec)
      | Ret pool \<Rightarrow>
          (case Acquire (ceFuel env) EasyConnection (connFactory env nd) (ceNow env) (ceArrivals env) pool of
             None \<Rightarrow> None
           | Some (Panic p, pool) \<Rightarrow> Some (Panic p, put_pool nd pool ec)
           | Some (Ret (Inl err), pool) \<Rightarrow>
               Some (Ret (Inl (NewSystemError ERROR_INTERNAL_ERROR err)), put_pool nd pool ec)
           | Some (Ret (Inr c), pool) \<Rightarrow>
               (case Release c pool of
                  None \<Rightarrow> None
                | Some (Panic p, pool) \<Rightarrow> Some (Panic p, put_pool nd pool ec)
                | Some (Ret _, pool) \<Rightarrow> Some (Ret (Inr c), put_pool nd pool ec))))"

text \<open>The body: bytes are sent as they are, any other value is serialised.\<close>

datatype 'b request_body = Bytes "byte list" | Value "'b option"

definition encode_request ::
    "'b codecs \<Rightarrow> byte \<Rightarrow> easy_head \<Rightarrow> 'b request_body \<Rightarrow> go_error + byte list" where
  "encode_request cs fmt head body =
     (case body of
        Bytes bodyData \<Rightarrow> EncodeWithBodyData cs (NewPackageWithBodyData fmt head bodyData)
      | Value b \<Rightarrow> EncodeWithBody cs (NewPackageWithBody fmt head b))"

text \<open>
  \<open>Sent s head\<close>: the channel of session \<open>s\<close> is returned; \<open>head\<close> is the caller's head, which has
  been given the session's number. \<open>Unencodable s err\<close>: the function is left only through
  \<open>DestorySessionAndRespPkg\<close>, before it can return the error (see \<open>encode_failure_blocks\<close>).
\<close>

datatype request_result = Refused system_error | Sent nat easy_head | Unencodable nat go_error

definition submit ::
    "'b codecs \<Rightarrow> byte \<Rightarrow> easy_head \<Rightarrow> 'b request_body \<Rightarrow> node_ref \<Rightarrow> conn_ref \<Rightarrow> 'b service_client
       \<Rightarrow> request_result \<times> 'b service_client" where
  "submit cs fmt head body node c ec =
     (let (s, sm) = InitSession node (clSessionMgr ec);
          ec = ec\<lparr>clSessionMgr := sm\<rparr>;
          head = SetSeq (sSeq (smSessions sm ! s)) head
      in case encode_request cs fmt head body of
           Inl err \<Rightarrow> (Unencodable s err, ec)
         | Inr pkgData \<Rightarrow>
             (Sent s head, ec\<lparr>clSent := clSent ec @ [(pool_key (node_of node ec), c, pkgData)],
                clSessionMgr := upd_session s (\<lambda>x. x\<lparr>sCaller := Returned, sTimerWaits := True\<rparr>) (clSessionMgr ec)\<rparr>))"

definition RequestAsyncWithHead ::
    "'b codecs \<Rightarrow> client_env \<Rightarrow> byte \<Rightarrow> easy_head \<Rightarrow> 'b request_body \<Rightarrow> 'b service_client
       \<Rightarrow> (request_result outcome \<times> 'b service_client) option" where
  "RequestAsyncWithHead cs env fmt head body ec =
     (case choose_node env head ec of
        (Panic p, ec) \<Rightarrow> Some (Panic p, ec)
      | (Ret (Inl err), ec) \<Rightarrow> Some (Ret (Refused err), ec)
      | (Ret (Inr node), ec) \<Rightarrow>
          (case borrow env (node_of node ec) ec of
             None \<Rightarrow> None
           | Some (Panic p, ec) \<Rightarrow> Some (Panic p, ec)
           | Some (Ret (Inl err), ec) \<Rightarrow> Some (Ret (Refused err), ec)
           | Some (Ret (Inr c), ec) \<Rightarrow>
               (case submit cs fmt head body node c ec of (r, ec) \<Rightarrow> Some (Ret r, ec))))"

definition RequestAsync ::
    "'b codecs \<Rightarrow> client_env \<Rightarrow> string \<Rightarrow> 'b request_body \<Rightarrow> 'b service_client
       \<Rightarrow> (request_result outcome \<times> 'b service_client) option" where
  "RequestAsync cs env method body ec =
     RequestAsyncWithHead cs env FORMAT_MSGPACK (SetMethod method (SetService (clServiceName ec) NewEasyHead)) body ec"

section \<open>Results\<close>

datatype call_error = CallSystem system_error | CallLogic logic_error | CallOther go_error

text \<open>What \<open>RequestWithHead\<close> makes of the value it receives, \<open>None\<close> for nil.\<close>

definition head_result :: "'b easy_package option \<Rightarrow> system_error + 'b easy_package" where
  "head_result respPkg =
     (case respPkg of
        None \<Rightarrow> Inl (NewSystemError ERROR_TIME_OUT ''request time out'')
      | Some pkg \<Rightarrow> Inr pkg)"

text \<open>What \<open>Request\<close> makes of it: the decoded body or an error.\<close>

definition request_result_of :: "'b codecs \<Rightarrow> 'b easy_package option \<Rightarrow> call_error + 'b" where
  "request_result_of cs respPkg =
     (case respPkg of
        None \<Rightarrow> Inl (CallSystem (NewSystemError ERROR_TIME_OUT ''request time out''))
      | Some pkg \<Rightarrow>
          if GetRet (GetHead pkg) \<noteq> 0 then
            (if GetRet (GetHead pkg) < ERROR_MAX_SYSTEM_CODE
             then Inl (CallSystem (NewSystemError (GetRet (GetHead pkg)) (GetMsg (GetHead pkg))))
             else Inl (CallLogic (NewLogicError (GetRet (GetHead pkg)) (GetMsg (GetHead pkg)))))
          else (case DecodeBody cs pkg of Inl err \<Rightarrow> Inl (CallOther err) | Inr b \<Rightarrow> Inr b))"

text \<open>
  The waiting requests: \<open>answer s\<close> is what is received from the channel of session \<open>s\<close>. The caller's
  head comes back changed; \<open>None\<close> means that the call never returns (in \<open>Acquire\<close> or \<open>Release\<close>,
  or after an encoding failure).
\<close>

definition ServiceClient_RequestWithHead ::
    "'b codecs \<Rightarrow> client_env \<Rightarrow> (nat \<Rightarrow> 'b easy_package option) \<Rightarrow> byte \<Rightarrow> easy_head \<Rightarrow> 'b request_body
       \<Rightarrow> 'b service_client \<Rightarrow> ((system_error + 'b easy_package) outcome \<times> easy_head \<times> 'b service_client) option" where
  "ServiceClient_RequestWithHead cs env answer fmt head body ec =
     (case RequestAsyncWithHead cs env fmt head body ec of
        None \<Rightarrow> None
      | Some (Panic p, ec) \<Rightarrow> Some (Panic p, head, ec)
      | Some (Ret (Refused err), ec) \<Rightarrow> Some (Ret (Inl err), head, ec)
      | Some (Ret (Sent s head'), ec) \<Rightarrow> Some (Ret (head_result (answer s)), head', ec)
      | Some (Ret (Unencodable s err), ec) \<Rightarrow> None)"

definition ServiceClient_Request ::
    "'b codecs \<Rightarrow> client_env \<Rightarrow> (nat \<Rightarrow> 'b easy_package option) \<Rightarrow> string \<Rightarrow> 'b request_body
       \<Rightarrow> 'b service_client \<Rightarrow> ((call_error + 'b) outcome \<times> 'b service_client) option" where
  "ServiceClient_Request cs env answer method reqBody ec =
     (case RequestAsync cs env method reqBody ec of
        None \<Rightarrow> None
      | Some (Panic p, ec) \<Rightarrow> Some (Panic p, ec)
      | Some (Ret (Refused err), ec) \<Rightarrow> Some (Ret (Inl (CallSystem err)), ec)
      | Some (Ret (Sent s head'), ec) \<Rightarrow> Some (Ret (request_result_of cs (answer s)), ec)
      | Some (Ret (Unencodable s err), ec) \<Rightarrow> None)"

section \<open>What a request does\<close>

lemma call_getNodes_frame:
  assumes "call_getNodes env nm ec = (r, ec')"
  shows "clPoolMap ec' = clPoolMap ec \<and> clSent ec' = clSent ec \<and> clPoolSize ec' = clPoolSize ec \<and>
    clServiceName ec' = clServiceName ec \<and> clLoadBalanceType ec' = clLoadBalanceType ec \<and> clLb ec' = clLb ec \<and>
    (\<exists>h. clSessionMgr ec' = (clSessionMgr ec)\<lparr>smNodes := h\<rparr>)"
  using assms by (auto simp: call_getNodes_def split: prod.splits)

lemma choose_node_frame:
  assumes "choose_node env head ec = (r, ec')"
  shows "clPoolMap ec' = clPoolMap ec \<and> clSent ec' = clSent ec \<and> clPoolSize ec' = clPoolSize ec \<and>
    clServiceName ec' = clServiceName ec \<and> clLoadBalanceType ec' = clLoadBalanceType ec \<and>
    (\<exists>h. clSessionMgr ec' = (clSessionMgr ec)\<lparr>smNodes := h\<rparr>)"
proof (cases "GetService head = clServiceName ec \<and> clNodeMgr ec \<noteq> None")
  case True
  then obtain nm where nm: "clNodeMgr ec = Some nm" by auto
  obtain q ec1 where c: "call_getNodes env nm ec = (q, ec1)" by fastforce
  note f = call_getNodes_frame [OF c]
  have "\<exists>lb. ec' = ec1\<lparr>clLb := lb\<rparr>" if "q = Inr l" for l
    using assms True nm c that
    by (auto simp: choose_node_def Let_def split: outcome.splits sum.splits prod.splits)
  moreover have "ec' = ec1" if "q = Inl e" for e
    using assms True nm c that by (auto simp: choose_node_def Let_def)
  ultimately show ?thesis
    using f by (cases q) auto
next
  case False
  then have "ec' = ec"
    using assms by (auto simp: choose_node_def split: if_splits option.splits)
  then show ?thesis
    by (auto intro: exI [of _ "smNodes (clSessionMgr ec)"])
qed

lemma get_pool_error: "get_pool env nd ec = Panic p \<Longrightarrow> clPoolMap ec (pool_key nd) = None"
  by (auto simp: get_pool_def split: option.splits)

lemma borrow_frame:
  assumes "borrow env nd ec = Some (r, ec')"
  shows "clSent ec' = clSent ec \<and> clPoolSize ec' = clPoolSize ec \<and> clSessionMgr ec' = clSessionMgr ec \<and>
    clNodeMgr ec' = clNodeMgr ec \<and> clServiceName ec' = clServiceName ec"
  using assms
  by (auto simp: borrow_def put_pool_def split: outcome.splits option.splits sum.splits prod.splits)

text \<open>The end of a request, on the session it is given.\<close>

lemma submit_eq:
  "submit cs fmt head body node c ec =
     (let s = length (smSessions (clSessionMgr ec)); sm = snd (InitSession node (clSessionMgr ec));
          head = SetSeq (smSeq (clSessionMgr ec) + 1) head
      in case encode_request cs fmt head body of
           Inl err \<Rightarrow> (Unencodable s err, ec\<lparr>clSessionMgr := sm\<rparr>)
         | Inr d \<Rightarrow> (Sent s head, ec\<lparr>clSent := clSent ec @ [(pool_key (node_of node ec), c, d)],
              clSessionMgr := upd_session s (\<lambda>x. x\<lparr>sCaller := Returned, sTimerWaits := True\<rparr>) sm\<rparr>))"
  by (simp add: submit_def Let_def split_beta node_of_def add_active_def pool_key_def split: sum.split)

text \<open>The steps of a request that gets as far as a session.\<close>

lemma RequestAsyncWithHead_session:
  assumes "RequestAsyncWithHead cs env fmt head body ec = Some (Ret r, ec')" "\<And>e. r \<noteq> Refused e"
  obtains node c ec1 ec2 where "choose_node env head ec = (Ret (Inr node), ec1)"
    and "borrow env (node_of node ec1) ec1 = Some (Ret (Inr c), ec2)"
    and "submit cs fmt head body node c ec2 = (r, ec')"
  using assms
  by (auto simp: RequestAsyncWithHead_def
      split: prod.splits outcome.splits sum.splits option.splits intro!: that)

lemma RequestAsyncWithHead_refused:
  assumes "RequestAsyncWithHead cs env fmt head body ec = Some (Ret (Refused err), ec')"
  shows "choose_node env head ec = (Ret (Inl err), ec') \<or>
    (\<exists>node ec1. choose_node env head ec = (Ret (Inr node), ec1) \<and>
       borrow env (node_of node ec1) ec1 = Some (Ret (Inl err), ec'))"
  using assms
  by (auto simp: RequestAsyncWithHead_def submit_eq Let_def
      split: prod.splits outcome.splits sum.splits option.splits)

text \<open>What the three stages keep, the request keeps.\<close>

lemma RequestAsyncWithHead_keeps:
  assumes "RequestAsyncWithHead cs env fmt head body ec = Some (r, ec')" "P ec"
    and choose: "\<And>n ec1. choose_node env head ec = (n, ec1) \<Longrightarrow> P ec \<Longrightarrow> P ec1"
    and borrow: "\<And>nd ec1 b ec2. borrow env nd ec1 = Some (b, ec2) \<Longrightarrow> P ec1 \<Longrightarrow> P ec2"
    and submit: "\<And>node c ec2 r ec3. submit cs fmt head body node c ec2 = (r, ec3) \<Longrightarrow> P ec2 \<Longrightarrow> P ec3"
  shows "P ec'"
proof -
  obtain n ec1 where n: "choose_node env head ec = (n, ec1)" by fastforce
  note ok1 = choose [OF n assms(2)]
  show ?thesis
  proof (cases "\<exists>node. n = Ret (Inr node)")
    case True
    then obtain node where node: "n = Ret (Inr node)" by blast
    then obtain b ec2 where b: "borrow env (node_of node ec1) ec1 = Some (b, ec2)"
      using assms(1) n by (auto simp: RequestAsyncWithHead_def split: option.splits)
    note ok2 = borrow [OF b ok1]
    from assms(1) n node b have "ec' = ec2 \<or> (\<exists>c r'. submit cs fmt head body node c ec2 = (r', ec'))"
      by (auto simp: RequestAsyncWithHead_def split: outcome.splits sum.splits prod.splits)
    with ok2 submit show ?thesis by blast
  next
    case False
    with assms(1) n have "ec' = ec1"
      by (auto simp: RequestAsyncWithHead_def split: outcome.splits sum.splits)
    with ok1 show ?thesis by simp
  qed
qed

section \<open>Properties\<close>

lemma RequestAsyncWithHead_Sent:
  assumes "RequestAsyncWithHead cs env fmt head body ec = Some (Ret (Sent s head'), ec')"
  obtains h node c d where "s = length (smSessions (clSessionMgr ec))" "head' = SetSeq (smSeq (clSessionMgr ec) + 1) head"
    "encode_request cs fmt head' body = Inr d" "clSent ec' = clSent ec @ [(pool_key (h node), c, d)]"
    "clSessionMgr ec' = upd_session s (\<lambda>x. x\<lparr>sCaller := Returned, sTimerWaits := True\<rparr>)
       (snd (InitSession node ((clSessionMgr ec)\<lparr>smNodes := h\<rparr>)))"
proof -
  obtain node c ec1 ec2 where c: "choose_node env head ec = (Ret (Inr node), ec1)"
    "borrow env (node_of node ec1) ec1 = Some (Ret (Inr c), ec2)"
    and s: "submit cs fmt head body node c ec2 = (Sent s head', ec')"
    by (rule RequestAsyncWithHead_session [OF assms]) auto
  from choose_node_frame [OF c(1)] obtain h where h: "clSessionMgr ec1 = (clSessionMgr ec)\<lparr>smNodes := h\<rparr>"
    by blast
  with borrow_frame [OF c(2)] have h2: "clSessionMgr ec2 = (clSessionMgr ec)\<lparr>smNodes := h\<rparr>" by simp
  have sent: "clSent ec2 = clSent ec"
    using choose_node_frame [OF c(1)] borrow_frame [OF c(2)] by simp
  define head2 where "head2 = SetSeq (smSeq (clSessionMgr ec) + 1) head"
  from s h2 obtain d where d: "encode_request cs fmt head2 body = Inr d"
    by (auto simp: submit_eq Let_def head2_def split: sum.splits)
  with s h2 sent have "s = length (smSessions (clSessionMgr ec))" "head' = head2"
    "clSent ec' = clSent ec @ [(pool_key (h node), c, d)]"
    "clSessionMgr ec' = upd_session s (\<lambda>x. x\<lparr>sCaller := Returned, sTimerWaits := True\<rparr>)
       (snd (InitSession node ((clSessionMgr ec)\<lparr>smNodes := h\<rparr>)))"
    by (auto simp: submit_eq Let_def node_of_def head2_def)
  with d that show thesis by (simp add: head2_def)
qed

text \<open>
  C4: a request that is sent has a new session, found under the number that the request's head now
  carries and that its package was encoded with; exactly one package is sent, on a connection of
  the pool of the session's node, whose pending requests go up by one.
\<close>

theorem request_sent_with_session:
  assumes "RequestAsyncWithHead cs env fmt head body ec = Some (Ret (Sent s head'), ec')"
  shows "\<exists>h node c d. GetSession (GetSeq head') (clSessionMgr ec') = Some s \<and>
    s = length (smSessions (clSessionMgr ec)) \<and>
    head' = SetSeq (sSeq (smSessions (clSessionMgr ec') ! s)) head \<and>
    sNode (smSessions (clSessionMgr ec') ! s) = node \<and>
    encode_request cs fmt head' body = Inr d \<and>
    clSent ec' = clSent ec @ [(pool_key (h node), c, d)] \<and>
    smNodes (clSessionMgr ec') = add_active node 1 h"
proof -
  obtain h node c d where r: "s = length (smSessions (clSessionMgr ec))" "head' = SetSeq (smSeq (clSessionMgr ec) + 1) head"
    "encode_request cs fmt head' body = Inr d" "clSent ec' = clSent ec @ [(pool_key (h node), c, d)]"
    "clSessionMgr ec' = upd_session s (\<lambda>x. x\<lparr>sCaller := Returned, sTimerWaits := True\<rparr>)
       (snd (InitSession node ((clSessionMgr ec)\<lparr>smNodes := h\<rparr>)))"
    by (rule RequestAsyncWithHead_Sent [OF assms])
  show ?thesis
    by (rule exI [of _ h], rule exI [of _ node], rule exI [of _ c], rule exI [of _ d])
       (use r in \<open>simp add: GetSession_def head_getters head_setters upd_session_def\<close>)
qed

text \<open>
  C15: a request that is refused leaves nothing behind: no session, no number, no package; and its
  error is 1002 exactly when the nodes of the service could not be looked up, 1001 otherwise.
\<close>

theorem refused_request_leaves_nothing:
  assumes "RequestAsyncWithHead cs env fmt head body ec = Some (Ret (Refused err), ec')"
  shows "smSessions (clSessionMgr ec') = smSessions (clSessionMgr ec) \<and> smMap (clSessionMgr ec') = smMap (clSessionMgr ec) \<and>
    smSeq (clSessionMgr ec') = smSeq (clSessionMgr ec) \<and> clSent ec' = clSent ec \<and>
    seRet err = (if GetService head = clServiceName ec \<and>
        (\<exists>nm e. clNodeMgr ec = Some nm \<and> fst (call_getNodes env nm ec) = Inl e) then 1002 else 1001)"
proof -
  consider "choose_node env head ec = (Ret (Inl err), ec')"
    | node ec1 where "choose_node env head ec = (Ret (Inr node), ec1)" "borrow env (node_of node ec1) ec1 = Some (Ret (Inl err), ec')"
    using RequestAsyncWithHead_refused [OF assms] by blast
  then show ?thesis
  proof cases
    case 1
    have "seRet err = (if GetService head = clServiceName ec \<and>
        (\<exists>nm e. clNodeMgr ec = Some nm \<and> fst (call_getNodes env nm ec) = Inl e) then 1002 else 1001)"
      using 1 by (auto simp: choose_node_def Let_def NewSystemError_def error_codes
          split: if_splits option.splits prod.splits sum.splits outcome.splits)
    with choose_node_frame [OF 1] show ?thesis by auto
  next
    case 2
    have "\<not> (\<exists>nm e. clNodeMgr ec = Some nm \<and> fst (call_getNodes env nm ec) = Inl e)"
      using 2(1) by (auto simp: choose_node_def Let_def split: if_splits option.splits prod.splits sum.splits)
    moreover have "seRet err = 1001"
      using 2(2) by (auto simp: borrow_def NewSystemError_def error_codes split: option.splits prod.splits sum.splits outcome.splits)
    ultimately show ?thesis
      using choose_node_frame [OF 2(1)] borrow_frame [OF 2(2)] by auto
  qed
qed


section \<open>The pools of a client\<close>

definition pools_ok :: "'b service_client \<Rightarrow> bool" where
  "pools_ok ec \<longleftrightarrow> clPoolSize ec = 0 \<and> (\<forall>k pool. clPoolMap ec k = Some pool \<longrightarrow> gpMaxSize pool = 10)"

text \<open>Requests one after another.\<close>

type_synonym 'b request_args = "client_env \<times> byte \<times> easy_head \<times> 'b request_body"

fun request_all :: "'b codecs \<Rightarrow> 'b request_args list \<Rightarrow> 'b service_client \<Rightarrow> 'b service_client" where
  "request_all cs [] ec = ec"
| "request_all cs ((env, fmt, head, body) # rs) ec =
     (case RequestAsyncWithHead cs env fmt head body ec of
        None \<Rightarrow> ec
      | Some (_, ec) \<Rightarrow> request_all cs rs ec)"

lemma get_pool_maxSize:
  assumes "pools_ok ec" "get_pool env nd ec = Ret pool"
  shows "gpMaxSize pool = 10"
proof -
  have "i32 10 = 10" "i32 0 = 0" "i32 20 = 20" by (simp_all add: i32_id)
  with assms show ?thesis
    by (auto simp: get_pool_def pools_ok_def NewGenericPool_def POOL_MIN_SIZE_def Let_def fill_max split: option.splits)
qed

lemma pools_ok_put: "pools_ok ec \<Longrightarrow> gpMaxSize pool = 10 \<Longrightarrow> pools_ok (put_pool nd pool ec)"
  by (auto simp: pools_ok_def put_pool_def)

lemma pools_ok_borrow:
  assumes "pools_ok ec" "borrow env nd ec = Some (r, ec')"
  shows "pools_ok ec'"
proof (cases "get_pool env nd ec")
  case (Ret pool)
  note m = get_pool_maxSize [OF assms(1) Ret]
  obtain a p1 where a: "Acquire (ceFuel env) EasyConnection (connFactory env nd) (ceNow env) (ceArrivals env) pool = Some (a, p1)"
    using assms(2) Ret by (auto simp: borrow_def split: option.splits)
  with m have m1: "gpMaxSize p1 = 10" using Acquire_maxSize by fastforce
  show ?thesis
  proof (cases "\<exists>c. a = Ret (Inr c)")
    case True
    then obtain c where c: "a = Ret (Inr c)" by blast
    with assms(2) Ret a obtain q p2 where q: "Release c p1 = Some (q, p2)" "ec' = put_pool nd p2 ec"
      by (auto simp: borrow_def split: option.splits outcome.splits)
    with m1 Release_maxSize [OF q(1)] assms(1) show ?thesis by (simp add: pools_ok_put)
  next
    case False
    with assms(2) Ret a have "ec' = put_pool nd p1 ec"
      by (auto simp: borrow_def split: outcome.splits sum.splits)
    with m1 assms(1) show ?thesis by (simp add: pools_ok_put)
  qed
qed (use assms in \<open>simp add: borrow_def\<close>)

lemma pools_ok_choose:
  "pools_ok ec \<Longrightarrow> choose_node env head ec = (r, ec') \<Longrightarrow> pools_ok ec'"
  using choose_node_frame [of env head ec r ec'] by (auto simp: pools_ok_def)

lemma submit_pools: "submit cs fmt head body node c ec = (r, ec') \<Longrightarrow> pools_ok ec \<Longrightarrow> pools_ok ec'"
  by (auto simp: submit_eq Let_def pools_ok_def split: sum.splits)

lemma pools_ok_request:
  "RequestAsyncWithHead cs env fmt head body ec = Some (r, ec') \<Longrightarrow> pools_ok ec \<Longrightarrow> pools_ok ec'"
  by (rule RequestAsyncWithHead_keeps) (auto intro: pools_ok_choose pools_ok_borrow submit_pools)

text \<open>
  Whatever pool size a client is made with, and however many requests it has handled, every one
  of its pools has the size limit 10.
\<close>

theorem pool_size_argument_ignored:
  assumes "clPoolMap (request_all cs reqs (NewServiceClient dialed name poolSize lbType)) k = Some pool"
  shows "gpMaxSize pool = 10"
proof -
  have "pools_ok (request_all cs reqs ec)" if "pools_ok ec" for ec
    using that
  proof (induction reqs arbitrary: ec)
    case (Cons x reqs)
    then show ?case
      by (cases x) (auto split: option.split dest: pools_ok_request)
  qed simp
  moreover have "pools_ok (NewServiceClient dialed name poolSize lbType)"
    by (simp add: pools_ok_def NewServiceClient_def)
  ultimately show ?thesis
    using assms unfolding pools_ok_def by blast
qed

text \<open>The connections a client dials can be used, so its \<open>Acquire\<close> returns.\<close>

lemma connFactory_fresh: "0 \<le> lifetime \<Longrightarrow> fresh_factory EasyConnection (ceNow env) lifetime (connFactory env nd)"
  by (auto simp: fresh_factory_def connFactory_def Connect_def Connect_start_def Connect_end_def EasyConnection_def
      IsClose_def GetActiveTime_def split: option.splits)

text \<open>
  C28: requests with the same route key go to the same node as long as the node list is the same,
  whatever load-balance type the client was made with and whatever happened in between.
\<close>

theorem route_key_is_sticky:
  assumes "GetRouteKey head \<noteq> ''''" "GetRouteKey head' = GetRouteKey head"
    and "GetService head = clServiceName ec" "GetService head' = clServiceName ec'"
    and "clNodeMgr ec = Some nm" "nmNodeList nm = Some ps" "clNodeMgr ec' = Some nm'" "nmNodeList nm' = Some ps"
    and "ps \<noteq> []" "length ps < 2 ^ 32"
  shows "\<exists>node \<in> set ps. fst (choose_node env head ec) = Ret (Inr node) \<and> fst (choose_node env' head' ec') = Ret (Inr node)"
proof -
  let ?i = "unat (ChecksumIEEE (bytes_of (GetRouteKey head))) mod length ps"
  have pick: "fst (choose_node e hd c) = Ret (Inr (ps ! ?i))"
    if "GetRouteKey hd = GetRouteKey head" "GetService hd = clServiceName c" "clNodeMgr c = Some m" "nmNodeList m = Some ps"
    for e hd and c :: "'z service_client" and m
    using that assms(1,9,10)
    by (simp add: choose_node_def call_getNodes_def getNodes_def GetNode_def SetNodes_def hash_eq lb_types Let_def)
  have "ps ! ?i \<in> set ps" using assms(9) by simp
  with pick [of head ec nm env] pick [of head' ec' nm' env'] assms show ?thesis by auto
qed

section \<open>A request to a node that answers\<close>

lemma fill_all:
  assumes "\<And>k. f k = Inr (g k)"
  shows "gpChan (fill n f pool) = gpChan pool @ [length (gpConns pool)..<length (gpConns pool) + n] \<and>
    gpConns (fill n f pool) = gpConns pool @ map g [gpAttempts pool..<gpAttempts pool + n] \<and>
    gpShutdown (fill n f pool) = gpShutdown pool \<and> gpClosed (fill n f pool) = gpClosed pool \<and>
    gpLifetime (fill n f pool) = gpLifetime pool \<and> gpCap (fill n f pool) = gpCap pool"
proof (induction n arbitrary: pool)
  case (Suc n)
  let ?p = "(add_size 1 (pool\<lparr>gpAttempts := Suc (gpAttempts pool), gpConns := gpConns pool @ [g (gpAttempts pool)]\<rparr>))
      \<lparr>gpChan := gpChan pool @ [length (gpConns pool)]\<rparr>"
  have "fill (Suc n) f pool = fill n f ?p"
    by (simp add: create_def assms Let_def)
  with Suc.IH [of ?p] show ?case
    by (simp add: upt_conv_Cons del: upt_Suc fill.simps)
qed simp

lemma borrow_first:
  assumes "clPoolMap ec (pool_key nd) = None" "clPoolSize ec = 0" "0 < ceFuel env"
    and "\<And>n. ceDial env (Ip nd) (Port nd) n = None"
  shows "\<exists>pool. borrow env nd ec = Some (Ret (Inr 0), put_pool nd pool ec)"
proof -
  let ?g = "\<lambda>n :: nat. Connect_end (projr (Connect_start None (ceNow env) (client_connection (ceNow env))))"
  have f: "connFactory env nd n = Inr (?g n)" for n
    by (simp add: connFactory_def Connect_def Connect_start_def assms(4))
  have i: "i32 10 = 10" "i32 0 = 0" "i32 20 = 20" by (simp_all add: i32_id)
  let ?new = "\<lparr>gpChan = [], gpCap = 20, gpClosed = False, gpMaxSize = 10, gpCurSize = 0, gpMinSize = 10,
      gpShutdown = False, gpLifetime = 1800000000000, gpConns = [], gpAttempts = 0\<rparr> :: easy_connection generic_pool"
  let ?p = "fill 10 (connFactory env nd) ?new"
  have p: "get_pool env nd ec = Ret ?p"
    using assms(1,2) by (simp add: get_pool_def NewGenericPool_def POOL_MIN_SIZE_def POOL_ACTIVE_TIME_def Let_def i)
  note s = fill_all [of "connFactory env nd" ?g 10 ?new, OF f]
  have ten: "[0..<10] = 0 # [1..<10::nat]" by (simp add: upt_conv_Cons)
  from s have c: "gpChan ?p = 0 # [1..<10]" "gpConns ?p ! 0 = ?g 0" "\<not> gpShutdown ?p" "\<not> gpClosed ?p"
    "gpLifetime ?p = 1800000000000" "gpCap ?p = 20"
    by (simp_all add: ten)
  then have "usable EasyConnection (ceNow env) (?p\<lparr>gpChan := [1..<10]\<rparr>) 0"
    by (simp add: usable_def EasyConnection_def IsClose_def GetActiveTime_def Connect_end_def Connect_start_def)
  from vet_usable [OF this] c assms(3)
  have "Acquire (ceFuel env) EasyConnection (connFactory env nd) (ceNow env) (ceArrivals env) ?p =
      Some (Ret (Inr 0), ?p\<lparr>gpChan := [1..<10]\<rparr>)"
    by (cases "ceFuel env") (simp_all add: Acquire_def getOrCreate_def poll_def del: fill.simps)
  moreover have "Release 0 (?p\<lparr>gpChan := [1..<10]\<rparr>) = Some (Ret None, ?p\<lparr>gpChan := [1..<10] @ [0]\<rparr>)"
    using c by (simp add: Release_def del: fill.simps)
  ultimately show ?thesis
    by (simp add: borrow_def p del: fill.simps) blast
qed

section \<open>Witnesses\<close>

definition sample_client_env :: client_env where
  "sample_client_env = \<lparr>cePath = (\<lambda>p. Inr [(p, nodeData ''10.0.0.5'' 8001 100 7)]), ceTime = 5000, ceLater = 5001,
     ceDraw = (\<lambda>_. 0), ceDial = (\<lambda>ip port n. None), ceNow = 9, ceFuel = 20, ceArrivals = (\<lambda>_. Nothing)\<rparr>"

definition sample_client :: "nat service_client" where
  "sample_client = NewServiceClient None ''profile'' 100 LB_ROUND_ROBIN"

definition sample_node :: node where "sample_node = \<lparr>Ip = ''10.0.0.5'', Port = 8001, Weight = 100, Active = 0\<rparr>"

lemma sample_utf8: "valid_utf8 ''10.0.0.5''" by code_simp

lemma sample_chosen:
  assumes "GetService head = ''profile''" "GetRouteKey head = ''''"
  shows "\<exists>ec1. choose_node sample_client_env head sample_client = (Ret (Inr 0), ec1) \<and> node_of 0 ec1 = sample_node \<and>
    clPoolMap ec1 = Map.empty \<and> clPoolSize ec1 = 0 \<and> smSessions (clSessionMgr ec1) = [] \<and> smSeq (clSessionMgr ec1) = 0"
proof -
  have "Unmarshal_node (nodeData ''10.0.0.5'' 8001 100 7) = Inr sample_node"
    using sample_utf8 by (simp add: Unmarshal_nodeData sample_node_def)
  moreover have "i64 5000 = 5000" "i64 1 = 1" by (simp_all add: i64_id)
  ultimately show ?thesis
    using assms
    by (simp add: choose_node_def sample_client_def NewServiceClient_def NewNodeManager_def call_getNodes_def getNodes_def
        loadServiceNode_def sample_client_env_def ZK_NOT_EXSIT_NODE_CACHE_TIME_def alloc_node_def Let_def GetNode_def
        SetNodes_def lb_types getNodeByLoadBalanceRoundRobin_def NewLoadBalancer_def go_rem_def index_def node_of_def sm_init_def)
qed

lemma sample_sent:
  assumes "GetService head = ''profile''" "GetRouteKey head = ''''"
    and "fmt \<in> {FORMAT_JSON, FORMAT_MSGPACK}"
  shows "\<exists>head' ec'. RequestAsyncWithHead (with_json sample_codecs) sample_client_env fmt head (Bytes bs) sample_client =
    Some (Ret (Sent 0 head'), ec')"
proof -
  obtain ec1 where c: "choose_node sample_client_env head sample_client = (Ret (Inr 0), ec1)" "node_of 0 ec1 = sample_node"
    "clPoolMap ec1 = Map.empty" "clPoolSize ec1 = 0" "smSessions (clSessionMgr ec1) = []"
    using sample_chosen [OF assms(1,2)] by blast
  obtain pool where "borrow sample_client_env sample_node ec1 = Some (Ret (Inr 0), put_pool sample_node pool ec1)"
    using borrow_first [of ec1 sample_node sample_client_env] c by (auto simp: sample_client_env_def)
  moreover have "\<exists>d. encode_request (with_json sample_codecs) fmt h (Bytes bs) = Inr d" for h
    using assms(3)
    by (auto simp: encode_request_def EncodeWithBodyData_eq with_json_def codec_of.simps pkg_accessors json_enc_head_def
        sample_codecs_def sample_codec_def)
  then obtain d where "encode_request (with_json sample_codecs) fmt (SetSeq (smSeq (clSessionMgr ec1) + 1) head) (Bytes bs) = Inr d"
    by blast
  ultimately show ?thesis
    using c by (simp add: RequestAsyncWithHead_def submit_eq Let_def put_pool_def)
qed

definition plain_head :: easy_head where
  "plain_head = SetService ''profile'' (SetMethod ''hello'' NewEasyHead)"

lemma plain_head_simps: "GetService plain_head = ''profile''" "GetRouteKey plain_head = ''''"
  by (simp_all add: plain_head_def head_getters head_setters NewEasyHead_def)

lemma request_sent_with_session_witness:
  "\<exists>head' ec'. RequestAsyncWithHead (with_json sample_codecs) sample_client_env FORMAT_JSON plain_head (Bytes [1]) sample_client =
      Some (Ret (Sent 0 head'), ec') \<and>
    GetSession (GetSeq head') (clSessionMgr ec') = Some 0 \<and> length (clSent ec') = 1"
proof -
  obtain head' ec' where r: "RequestAsyncWithHead (with_json sample_codecs) sample_client_env FORMAT_JSON plain_head (Bytes [1]) sample_client =
      Some (Ret (Sent 0 head'), ec')"
    using sample_sent [OF plain_head_simps, of FORMAT_JSON] by blast
  from request_sent_with_session [OF r] r show ?thesis
    by (auto simp: sample_client_def NewServiceClient_def)
qed


lemma refused_request_leaves_nothing_witness:
  "\<exists>err ec'. RequestAsyncWithHead (with_json sample_codecs) sample_client_env FORMAT_JSON NewEasyHead (Bytes [1]) sample_client =
      Some (Ret (Refused err), ec') \<and> seRet err = 1001 \<and> smSessions (clSessionMgr ec') = []"
proof -
  obtain err ec' where r: "RequestAsyncWithHead (with_json sample_codecs) sample_client_env FORMAT_JSON NewEasyHead (Bytes [1]) sample_client =
      Some (Ret (Refused err), ec')"
    by (auto simp: RequestAsyncWithHead_def choose_node_def head_getters NewEasyHead_def sample_client_def NewServiceClient_def)
  from refused_request_leaves_nothing [OF r] r show ?thesis
    by (auto simp: sample_client_def NewServiceClient_def sm_init_def head_getters NewEasyHead_def)
qed

lemma pool_size_argument_ignored_witness:
  "\<exists>k pool. clPoolMap (request_all (with_json sample_codecs) [(sample_client_env, FORMAT_JSON, plain_head, Bytes [1])] sample_client) k =
     Some pool \<and> gpMaxSize pool = 10"
proof -
  obtain ec1 where c: "choose_node sample_client_env plain_head sample_client = (Ret (Inr 0), ec1)" "node_of 0 ec1 = sample_node"
    "clPoolMap ec1 = Map.empty" "clPoolSize ec1 = 0"
    using sample_chosen [OF plain_head_simps] by blast
  obtain pool where b: "borrow sample_client_env sample_node ec1 = Some (Ret (Inr 0), put_pool sample_node pool ec1)"
    using borrow_first [of ec1 sample_node sample_client_env] c by (auto simp: sample_client_env_def)
  have "clPoolMap (request_all (with_json sample_codecs) [(sample_client_env, FORMAT_JSON, plain_head, Bytes [1])] sample_client)
      (pool_key sample_node) = Some pool"
    using c b by (simp add: RequestAsyncWithHead_def submit_eq Let_def put_pool_def split: sum.split)
  with pool_size_argument_ignored [of "with_json sample_codecs" _ None "''profile''" 100 LB_ROUND_ROBIN "pool_key sample_node"]
  show ?thesis unfolding sample_client_def by blast
qed

definition routed_client :: "int \<Rightarrow> nat service_client" where
  "routed_client lbType = (NewServiceClient None ''profile'' 100 lbType)
     \<lparr>clNodeMgr := Some ((projr (NewNodeManager None ''profile'' 3))\<lparr>nmNodeList := Some [4, 5, 6]\<rparr>)\<rparr>"

lemma route_key_is_sticky_witness:
  "\<exists>node \<in> {4, 5, 6}.
     fst (choose_node sample_client_env (SetRouteKey ''user7'' plain_head) (routed_client LB_RANDOM)) = Ret (Inr node) \<and>
     fst (choose_node sample_client_env (SetRouteKey ''user7'' (SetMethod ''bye'' plain_head)) (routed_client LB_ACTIVE)) = Ret (Inr node)"
  using route_key_is_sticky [of "SetRouteKey ''user7'' plain_head" "SetRouteKey ''user7'' (SetMethod ''bye'' plain_head)"
      "routed_client LB_RANDOM" "routed_client LB_ACTIVE" _ "[4, 5, 6]" _ sample_client_env sample_client_env]
  by (simp add: routed_client_def NewServiceClient_def plain_head_def head_getters head_setters)

end
