(* ===== verification/Easy_Client.thy ===== *)
theory Easy_Client
  imports Service_Client
begin

text \<open>
  The client for all services (\<open>easy_client.go\<close>), which keeps a service client per name, and the
  handler of arriving packages (\<open>client_handler.go\<close>), which gives them to \<open>ServiceClient.Process\<close>.
\<close>

section \<open>EasyClient\<close>

record 'b easy_client =
  eaClients :: "string \<rightharpoonup> 'b service_client"
  eaEndpoints :: "string list"
  eaPoolSize :: int
  eaLoadbalanceType :: int

definition NewEasyClient :: "string list \<Rightarrow> int \<Rightarrow> int \<Rightarrow> 'b easy_client" where
  "NewEasyClient endpoints poolSize loadbalanceType =
     \<lparr>eaClients = Map.empty, eaEndpoints = endpoints, eaPoolSize = poolSize, eaLoadbalanceType = loadbalanceType\<rparr>"

text \<open>\<open>dialed\<close> is the result of connecting to etcd, which is tried when the client is made.\<close>

definition client_for :: "go_error option \<Rightarrow> string \<Rightarrow> 'b easy_client \<Rightarrow> 'b service_client" where
  "client_for dialed name ec =
     (case eaClients ec name of
        None \<Rightarrow> NewServiceClient dialed name (eaPoolSize ec) (eaLoadbalanceType ec)
      | Some client \<Rightarrow> client)"

definition EasyClient_RequestAsyncWithHead ::
    "'b codecs \<Rightarrow> go_error option \<Rightarrow> client_env \<Rightarrow> byte \<Rightarrow> easy_head \<Rightarrow> 'b request_body \<Rightarrow> 'b easy_client
       \<Rightarrow> (request_result outcome \<times> 'b easy_client) option" where
  "EasyClient_RequestAsyncWithHead cs dialed env fmt head body ec =
     (let name = GetService head in
      case RequestAsyncWithHead cs env fmt head body (client_for dialed name ec) of
        None \<Rightarrow> None
      | Some (r, client) \<Rightarrow> Some (r, ec\<lparr>eaClients := (eaClients ec)(name \<mapsto> client)\<rparr>))"

definition EasyClient_RequestAsync ::
    "'b codecs \<Rightarrow> go_error option \<Rightarrow> client_env \<Rightarrow> string \<Rightarrow> string \<Rightarrow> 'b request_body \<Rightarrow> 'b easy_client
       \<Rightarrow> (request_result outcome \<times> 'b easy_client) option" where
  "EasyClient_RequestAsync cs dialed env serviceName method body ec =
     EasyClient_RequestAsyncWithHead cs dialed env FORMAT_MSGPACK (SetMethod method (SetService serviceName NewEasyHead)) body ec"

text \<open>What \<open>Request\<close> makes of the value it receives.\<close>

definition easy_result_of :: "'b codecs \<Rightarrow> 'b easy_package option \<Rightarrow> call_error + 'b" where
  "easy_result_of cs respPkg =
     (case respPkg of
        None \<Rightarrow> Inl (CallSystem (NewSystemError ERROR_TIME_OUT ''request time out''))
      | Some pkg \<Rightarrow>
          if GetRet (GetHead pkg) \<noteq> 0
          then Inl (CallLogic (NewLogicError (GetRet (GetHead pkg)) (GetMsg (GetHead pkg))))
          else (case DecodeBody cs pkg of Inl err \<Rightarrow> Inl (CallOther err) | Inr b \<Rightarrow> Inr b))"

text \<open>What \<open>RequestWithHead\<close> makes of it.\<close>

definition easy_head_result :: "'b easy_package option \<Rightarrow> system_error + 'b easy_package" where
  "easy_head_result respPkg =
     (case respPkg of
        None \<Rightarrow> Inl (NewSystemError ERROR_TIME_OUT ''request time out'')
      | Some pkg \<Rightarrow> Inr pkg)"

section \<open>ClientHandler\<close>

text \<open>
  The submitted function on goroutine \<open>t\<close>, which is idle. After a decoding error it goes on with a
  nil package, on which \<open>Process\<close> panics.
\<close>

definition process_package ::
    "'b codecs \<Rightarrow> byte list \<Rightarrow> nat \<Rightarrow> 'b session_manager \<Rightarrow> 'b session_manager outcome option" where
  "process_package cs pkgData t sm =
     (case DecodeWithBodyData cs pkgData of
        Panic p \<Rightarrow> Some (Panic p)
      | Ret (Inl err) \<Rightarrow> Some (Panic NilDeref)
      | Ret (Inr respPkg) \<Rightarrow> sm_do sm (Process t respPkg))"

text \<open>\<open>PanicHandler\<close> stops the panics; a package the goroutine pool refuses is dropped.\<close>

definition ClientHandler_Dispatch ::
    "'b codecs \<Rightarrow> bool \<Rightarrow> byte list \<Rightarrow> nat \<Rightarrow> 'b session_manager \<Rightarrow> 'b session_manager" where
  "ClientHandler_Dispatch cs submitted pkgData t sm =
     (if submitted then
        (case process_package cs pkgData t sm of Some (Ret sm') \<Rightarrow> sm' | _ \<Rightarrow> sm)
      else sm)"

section \<open>Properties\<close>

text \<open>Every client in the table is the client of its name.\<close>

definition named_clients :: "'b easy_client \<Rightarrow> bool" where
  "named_clients ec \<longleftrightarrow> (\<forall>name client. eaClients ec name = Some client \<longrightarrow> clServiceName client = name)"

lemma RequestAsyncWithHead_name:
  assumes "RequestAsyncWithHead cs env fmt head body ec = Some (r, ec')"
  shows "clServiceName ec' = clServiceName ec"
  by (rule RequestAsyncWithHead_keeps [OF assms, where P = "\<lambda>c. clServiceName c = clServiceName ec"])
     (auto simp: submit_eq Let_def dest: choose_node_frame borrow_frame split: sum.splits)

lemma client_for_name:
  "named_clients ec \<Longrightarrow> clServiceName (client_for dialed (GetService head) ec) = GetService head"
  by (auto simp: client_for_def named_clients_def NewServiceClient_def split: option.splits)

lemma named_clients_request:
  assumes "named_clients ec" "EasyClient_RequestAsyncWithHead cs dialed env fmt head body ec = Some (r, ec')"
  shows "named_clients ec'"
proof -
  let ?name = "GetService head"
  obtain c where "RequestAsyncWithHead cs env fmt head body (client_for dialed ?name ec) = Some (r, c)"
    and ec': "ec' = ec\<lparr>eaClients := (eaClients ec)(?name \<mapsto> c)\<rparr>"
    using assms(2) by (auto simp: EasyClient_RequestAsyncWithHead_def Let_def split: option.splits)
  then have "clServiceName c = ?name"
    using client_for_name [OF assms(1)] by (simp add: RequestAsyncWithHead_name)
  with assms(1) show ?thesis
    by (simp add: named_clients_def ec')
qed

text \<open>
  In a table built by requests each client is the client of its name, so a request passes the
  client's check of the service name; and it leaves the clients of all other services as they are.
\<close>

theorem easy_client_keeps_services_apart:
  assumes "named_clients ec" "EasyClient_RequestAsyncWithHead cs dialed env fmt head body ec = Some (r, ec')"
  shows "named_clients ec' \<and> clServiceName (client_for dialed (GetService head) ec) = GetService head \<and>
    (\<forall>name. name \<noteq> GetService head \<longrightarrow> eaClients ec' name = eaClients ec name)"
  using named_clients_request [OF assms] assms client_for_name [OF assms(1)]
  by (auto simp: EasyClient_RequestAsyncWithHead_def Let_def split: option.splits)

lemma named_clients_new: "named_clients (NewEasyClient endpoints poolSize lbType)"
  by (simp add: named_clients_def NewEasyClient_def)

text \<open>
  A service client whose connection to etcd failed when it was made stays in the table without a
  node manager: every later request for the service is refused with code 1001, however often it
  is made and although etcd may long be back.
\<close>

theorem failed_dial_is_permanent:
  assumes "eaClients ec (GetService head) = None" "named_clients ec"
    and "EasyClient_RequestAsyncWithHead cs (Some err) env fmt head body ec = Some (r, ec')"
    and "GetService head' = GetService head"
  shows "\<exists>msg. EasyClient_RequestAsyncWithHead cs dialed env' fmt' head' body' ec' =
    Some (Ret (Refused \<lparr>seRet = 1001, seMsg = msg\<rparr>), ec')"
proof -
  let ?c = "NewServiceClient (Some err) (GetService head) (eaPoolSize ec) (eaLoadbalanceType ec) :: 'a service_client"
  have n: "choose_node e hd ?c = (Ret (Inl \<lparr>seRet = 1001, seMsg = ''nodemgr is nil,maybe etcd connect fail''\<rparr>), ?c)"
    if "GetService hd = GetService head" for e hd
    using that by (simp add: choose_node_def NewServiceClient_def NewNodeManager_def NewSystemError_def error_codes)
  have "ec' = ec\<lparr>eaClients := (eaClients ec)(GetService head \<mapsto> ?c)\<rparr>"
    using assms(1,3) n [of head env]
    by (auto simp: EasyClient_RequestAsyncWithHead_def client_for_def RequestAsyncWithHead_def Let_def)
  with n [of head' env'] assms(4) show ?thesis
    by (simp add: EasyClient_RequestAsyncWithHead_def client_for_def RequestAsyncWithHead_def Let_def)
qed

text \<open>
  The two clients disagree on the errors a service returns with a system code: \<open>EasyClient.Request\<close>
  reports them as logic errors.
\<close>

lemma easy_client_reports_logic_errors:
  "easy_result_of cs respPkg \<noteq> request_result_of cs respPkg \<longleftrightarrow>
     (\<exists>pkg. respPkg = Some pkg \<and> GetRet (GetHead pkg) \<noteq> 0 \<and> GetRet (GetHead pkg) < 2000)"
  "GetRet (GetHead pkg) \<noteq> 0 \<Longrightarrow>
     easy_result_of cs (Some pkg) = Inl (CallLogic \<lparr>leRet = GetRet (GetHead pkg), leMsg = GetMsg (GetHead pkg)\<rparr>)"
  by (auto simp: easy_result_of_def request_result_of_def error_codes NewLogicError_def split: option.split)

text \<open>A package that does not decode, or that the pool refuses, changes nothing.\<close>

lemma ClientHandler_ignores:
  "\<forall>pkg. DecodeWithBodyData cs d \<noteq> Ret (Inr pkg) \<Longrightarrow> ClientHandler_Dispatch cs submitted d t sm = sm"
  "ClientHandler_Dispatch cs False d t sm = sm"
  by (auto simp: ClientHandler_Dispatch_def process_package_def split: outcome.split sum.split)

text \<open>A response moves an idle goroutine to the session with its number.\<close>

lemma ClientHandler_finds_session:
  assumes "DecodeWithBodyData cs d = Ret (Inr pkg)" "GetSession (GetSeq (GetHead pkg)) sm = Some s"
    and "GetSeq (GetHead pkg) \<noteq> 0" "smThreads sm t = Idle"
  shows "ClientHandler_Dispatch cs True d t sm = set_thread t (Deleting s (Some pkg)) sm"
  using assms by (simp add: ClientHandler_Dispatch_def process_package_def)

section \<open>Witnesses\<close>

lemma easy_client_keeps_services_apart_witness:
  "\<exists>ec'. EasyClient_RequestAsyncWithHead (with_json sample_codecs) (Some ''refused'') sample_client_env FORMAT_JSON plain_head (Bytes [])
      (NewEasyClient [] 5 LB_ACTIVE) = Some (Ret (Refused \<lparr>seRet = 1001, seMsg = ''nodemgr is nil,maybe etcd connect fail''\<rparr>), ec') \<and>
    named_clients ec' \<and> eaClients ec' ''other'' = None"
proof -
  obtain ec' where r: "EasyClient_RequestAsyncWithHead (with_json sample_codecs) (Some ''refused'') sample_client_env FORMAT_JSON plain_head (Bytes [])
      (NewEasyClient [] 5 LB_ACTIVE) = Some (Ret (Refused \<lparr>seRet = 1001, seMsg = ''nodemgr is nil,maybe etcd connect fail''\<rparr>), ec')"
    by (simp add: EasyClient_RequestAsyncWithHead_def client_for_def NewEasyClient_def RequestAsyncWithHead_def choose_node_def
        NewServiceClient_def NewNodeManager_def NewSystemError_def error_codes Let_def)
  from easy_client_keeps_services_apart [OF named_clients_new r] r show ?thesis
    by (auto simp: NewEasyClient_def plain_head_simps)
qed

lemma failed_dial_is_permanent_witness:
  "\<exists>r ec' msg. EasyClient_RequestAsyncWithHead (with_json sample_codecs) (Some ''refused'') sample_client_env FORMAT_JSON plain_head (Bytes [])
      (NewEasyClient [] 5 LB_ACTIVE) = Some (r, ec') \<and>
    EasyClient_RequestAsyncWithHead (with_json sample_codecs) None sample_client_env FORMAT_JSON plain_head (Bytes []) ec' =
      Some (Ret (Refused \<lparr>seRet = 1001, seMsg = msg\<rparr>), ec')"
proof -
  obtain r ec' where e: "EasyClient_RequestAsyncWithHead (with_json sample_codecs) (Some ''refused'') sample_client_env FORMAT_JSON plain_head (Bytes [])
      (NewEasyClient [] 5 LB_ACTIVE) = Some (r, ec')"
    by (simp add: EasyClient_RequestAsyncWithHead_def client_for_def NewEasyClient_def RequestAsyncWithHead_def choose_node_def
        NewServiceClient_def NewNodeManager_def Let_def)
  from failed_dial_is_permanent [OF _ named_clients_new e] e show ?thesis
    by (auto simp: NewEasyClient_def)
qed

end
