(* ===== verification/Gateway.thy ===== *)
theory Gateway
  imports Easy_Client
begin

text \<open>
  The gateway: its handler of packages (\<open>gateway_handler.go\<close>) and the two middlewares that forward
  requests to services (\<open>example/gateway.go\<close>), one for packages and one for HTTP. They call
  \<open>EasyClient.RequestWithHead\<close>, which is given here too: it sends the request and waits for the
  value of the session's channel, the parameter \<open>answer\<close>.
\<close>

section \<open>Requests that wait\<close>

text \<open>
  The head belongs to the caller and comes back changed; \<open>None\<close> means that the call never returns
  (in \<open>Acquire\<close>, or after an encoding failure).
\<close>

definition EasyClient_RequestWithHead ::
    "'b codecs \<Rightarrow> go_error option \<Rightarrow> client_env \<Rightarrow> (nat \<Rightarrow> 'b easy_package option) \<Rightarrow> byte \<Rightarrow> easy_head
       \<Rightarrow> 'b request_body \<Rightarrow> 'b easy_client \<Rightarrow> ((system_error + 'b easy_package) outcome \<times> easy_head \<times> 'b easy_client) option" where
  "EasyClient_RequestWithHead cs dialed env answer fmt head body ec =
     (case EasyClient_RequestAsyncWithHead cs dialed env fmt head body ec of
        None \<Rightarrow> None
      | Some (Panic p, ec) \<Rightarrow> Some (Panic p, head, ec)
      | Some (Ret (Refused err), ec) \<Rightarrow> Some (Ret (Inl err), head, ec)
      | Some (Ret (Sent s head'), ec) \<Rightarrow> Some (Ret (easy_head_result (answer s)), head', ec)
      | Some (Ret (Unencodable s err), ec) \<Rightarrow> None)"

definition EasyClient_Request ::
    "'b codecs \<Rightarrow> go_error option \<Rightarrow> client_env \<Rightarrow> (nat \<Rightarrow> 'b easy_package option) \<Rightarrow> string \<Rightarrow> string
       \<Rightarrow> 'b request_body \<Rightarrow> 'b easy_client \<Rightarrow> ((call_error + 'b) outcome \<times> 'b easy_client) option" where
  "EasyClient_Request cs dialed env answer serviceName method reqBody ec =
     (case EasyClient_RequestAsync cs dialed env serviceName method reqBody ec of
        None \<Rightarrow> None
      | Some (Panic p, ec) \<Rightarrow> Some (Panic p, ec)
      | Some (Ret (Refused err), ec) \<Rightarrow> Some (Ret (Inl (CallSystem err)), ec)
      | Some (Ret (Sent s head'), ec) \<Rightarrow> Some (Ret (easy_result_of cs (answer s)), ec)
      | Some (Ret (Unencodable s err), ec) \<Rightarrow> None)"

section \<open>GatewayHandler\<close>

text \<open>An exchange with a client of the gateway; a nil package is \<open>None\<close>.\<close>

record ('b, 'w) gw_exchange =
  gxPkg :: "'b easy_package"
  gxSent :: "byte list option list"
  gxWorld :: 'w

definition GatewayHandler_Dispatch ::
    "'b codecs \<Rightarrow> ('b, 'w) gw_exchange gateway_handler \<Rightarrow> bool \<Rightarrow> byte list \<Rightarrow> 'w \<Rightarrow> byte list option list \<times> 'w" where
  "GatewayHandler_Dispatch cs h submitted pkgData world =
     (if submitted then
        (case DecodeWithBodyData cs pkgData of
           Ret (Inr reqPkg) \<Rightarrow>
             (if length (gwMiddlewares h) > 0 then
                (let e = final_state (invoke (length (gwMiddlewares h)) (gwMiddlewares h) 0
                           \<lparr>gxPkg = reqPkg, gxSent = [], gxWorld = world\<rparr>)
                 in (gxSent e, gxWorld e))
              else ([], world))
         | _ \<Rightarrow> ([], world))
      else ([], world))"

section \<open>Forwarding packages\<close>

definition gx_send :: "byte list option \<Rightarrow> ('b, 'w) gw_exchange \<Rightarrow> ('b, 'w) gw_exchange" where
  "gx_send d e = e\<lparr>gxSent := gxSent e @ [d]\<rparr>"

definition call_next :: "('s \<Rightarrow> 's run) option \<Rightarrow> 's \<Rightarrow> 's run" where
  "call_next next s = (case next of None \<Rightarrow> Done s | Some f \<Rightarrow> f s)"

text \<open>The world of the gateway is its \<open>EasyClient\<close>.\<close>

definition ProxyMiddleware ::
    "'b codecs \<Rightarrow> go_error option \<Rightarrow> client_env \<Rightarrow> (nat \<Rightarrow> 'b easy_package option) \<Rightarrow> ('b, 'b easy_client) gw_exchange mw" where
  "ProxyMiddleware cs dialed env answer = (\<lambda>next e.
     (let fmt = GetFormat (gxPkg e) in
      case EasyClient_RequestWithHead cs dialed env answer fmt (GetHead (gxPkg e)) (Bytes (GetBodyData (gxPkg e))) (gxWorld e) of
        None \<Rightarrow> Blocked e
      | Some (Panic p, head, ec) \<Rightarrow> Panicked p (e\<lparr>gxPkg := SetHead head (gxPkg e), gxWorld := ec\<rparr>)
      | Some (Ret (Inr respPkg), head, ec) \<Rightarrow>
          call_next next (gx_send (GetPkgData respPkg) (e\<lparr>gxPkg := SetHead head (gxPkg e), gxWorld := ec\<rparr>))
      | Some (Ret (Inl err), head, ec) \<Rightarrow>
          (let head = SetMsg (seMsg err) (SetRet (seRet err) head);
               e = e\<lparr>gxPkg := SetHead head (gxPkg e), gxWorld := ec\<rparr>;
               respPkg = NewPackageWithBody fmt head None
           in (case EncodeWithBody cs respPkg of
                 Inl err \<Rightarrow> Done e
               | Inr respData \<Rightarrow>
                   call_next next (gx_send (GetPkgData respPkg) (gx_send (Some respData) e))))))"

section \<open>Forwarding HTTP requests\<close>

record http_request =
  hrPath :: string
  hrHeader :: "string \<Rightarrow> string"    \<comment> \<open>\<open>Header.Get\<close>, empty for a missing header\<close>
  hrRemoteAddr :: string
  hrBody :: "go_error + byte list"

datatype http_event = SetHeader string string | HttpError string int | WriteBody "byte list"

record ('b) http_exchange =
  hxReq :: http_request
  hxEvents :: "http_event list"
  hxClient :: "'b easy_client"

definition hx_event :: "http_event \<Rightarrow> 'b http_exchange \<Rightarrow> 'b http_exchange" where
  "hx_event v e = e\<lparr>hxEvents := hxEvents e @ [v]\<rparr>"

text \<open>The service and the method a request names: in its headers or in its path.\<close>

definition http_target :: "http_request \<Rightarrow> string \<times> string" where
  "http_target r =
     (let paths = Split (hrPath r) (CHR ''/'') in
      if length paths = 2 then (hrHeader r ''X-Easycall-Service'', hrHeader r ''X-Easycall-Method'')
      else if length paths = 3 then (paths ! 1, paths ! 2)
      else ('''', ''''))"

definition http_head :: "http_request \<Rightarrow> easy_head" where
  "http_head r =
     (let (service, method) = http_target r;
          head = SetMethod method (SetService service NewEasyHead);
          head = (if hrHeader r ''X-Easycall-Uid'' \<noteq> ''''
                  then SetUid (of_nat (fst (ParseUint (hrHeader r ''X-Easycall-Uid'')))) head else head);
          head = (if hrHeader r ''X-Easycall-Token'' \<noteq> '''' then SetToken (hrHeader r ''X-Easycall-Token'') head else head)
      in SetRequestIp (hrRemoteAddr r) head)"

definition HttpProxyMiddleware ::
    "'b codecs \<Rightarrow> go_error option \<Rightarrow> client_env \<Rightarrow> (nat \<Rightarrow> 'b easy_package option) \<Rightarrow> 'b http_exchange mw" where
  "HttpProxyMiddleware cs dialed env answer = (\<lambda>next e.
     (let r = hxReq e; (service, method) = http_target r in
      if service = '''' \<or> method = '''' then Done (hx_event (HttpError ''service or method is empty'' 400) e)
      else case hrBody r of
        Inl err \<Rightarrow> Done (hx_event (HttpError err 500) e)
      | Inr bodyData \<Rightarrow>
          (case EasyClient_RequestWithHead cs dialed env answer FORMAT_JSON (http_head r) (Bytes bodyData) (hxClient e) of
             None \<Rightarrow> Blocked e
           | Some (Panic p, head, ec) \<Rightarrow> Panicked p (e\<lparr>hxClient := ec\<rparr>)
           | Some (Ret (Inl err), head, ec) \<Rightarrow>
               Done (hx_event (HttpError (seMsg err) 500) (hx_event (SetHeader ''X-Easycall-Ret'' (Itoa (seRet err))) (e\<lparr>hxClient := ec\<rparr>)))
           | Some (Ret (Inr respPkg), head, ec) \<Rightarrow>
               (let e = e\<lparr>hxClient := ec\<rparr>; ret = GetRet (GetHead respPkg); msg = GetMsg (GetHead respPkg) in
                if ret \<noteq> 0 then
                  (if ret < ERROR_MAX_SYSTEM_CODE
                   then Done (hx_event (HttpError msg 500) (hx_event (SetHeader ''X-Easycall-Ret'' (Itoa ret)) e))
                   else Done (hx_event (HttpError msg 400) (hx_event (SetHeader ''X-Easycall-Ret'' (Itoa ret)) e)))
                else call_next next (hx_event (WriteBody (GetBodyData respPkg))
                       (hx_event (SetHeader ''Content-Type'' ''application/json;charset=utf-8'') e))))))"

section \<open>Properties\<close>

lemma Split_two:
  assumes "c \<notin> set xs" "c \<notin> set ys"
  shows "Split (c # xs @ c # ys) c = [[], xs, ys]"
  using assms by (simp add: Split_append Split_no_sep)

text \<open>
  C38: an HTTP request for \<open>/service/method\<close> gets exactly one answer: the service's JSON with its
  content type when the return code is 0; else the code in a header and the message with status
  400 for a logic error and 500 for a system error, which a time-out is.
\<close>

theorem http_request_answered:
  assumes "hrPath (hxReq e) = CHR ''/'' # service @ CHR ''/'' # method"
    and "CHR ''/'' \<notin> set service" "CHR ''/'' \<notin> set method" "service \<noteq> []" "method \<noteq> []"
    and "hrBody (hxReq e) = Inr bodyData" "hxEvents e = []"
    and "EasyClient_RequestAsyncWithHead cs dialed env FORMAT_JSON (http_head (hxReq e)) (Bytes bodyData) (hxClient e) =
           Some (Ret (Sent s head'), ec')"
  shows "\<exists>e'. HttpProxyMiddleware cs dialed env answer None e = Done e' \<and> hxEvents e' =
    (case answer s of
       None \<Rightarrow> [SetHeader ''X-Easycall-Ret'' ''1003'', HttpError ''request time out'' 500]
     | Some p \<Rightarrow>
         if hRet (pHead p) = 0
         then [SetHeader ''Content-Type'' ''application/json;charset=utf-8'', WriteBody (pBodyData p)]
         else [SetHeader ''X-Easycall-Ret'' (Itoa (hRet (pHead p))),
               HttpError (hMsg (pHead p)) (if hRet (pHead p) < 2000 then 500 else 400)])"
proof -
  have "http_target (hxReq e) = (service, method)"
    using Split_two [OF assms(2,3)] by (simp add: http_target_def assms(1) Let_def)
  moreover have "Itoa 1003 = ''1003''" by code_simp
  ultimately show ?thesis
    using assms(4-8)
    by (auto simp: HttpProxyMiddleware_def EasyClient_RequestWithHead_def easy_head_result_def error_codes NewSystemError_def
        hx_event_def head_getters pkg_accessors call_next_def Let_def split: option.split)
qed

text \<open>
  When a forwarded request fails, the middleware sends the error package and then, for want of a
  \<open>return\<close>, a nil package, on which the writer of the client's connection stops: the error reaches
  the client, and nothing that is sent to it afterwards ever does.
\<close>

theorem gateway_error_stops_connection:
  assumes "EasyClient_RequestWithHead cs dialed env answer (pFormat (gxPkg e)) (pHead (gxPkg e)) (Bytes (pBodyData (gxPkg e))) (gxWorld e) =
      Some (Ret (Inl err), head, ec)"
    and "EncodeWithBody cs (NewPackageWithBody (pFormat (gxPkg e)) (SetMsg (seMsg err) (SetRet (seRet err) head)) None) = Inr d"
    and "gxSent e = []"
  shows "\<exists>e' w. ProxyMiddleware cs dialed env answer None e = Done e' \<and> gxSent e' = [Some d, None] \<and>
    conn_run (server_world 1 now) [SendStart 0 (gxSent e' ! 0), SendPut 0, SendStart 0 (gxSent e' ! 1), SendPut 0,
      WriteStep True, WriteStep True] = Some (Ret w) \<and>
    ecWritten (cwConn w) = [d] \<and> (\<forall>w'. conn_step\<^sup>*\<^sup>* w w' \<longrightarrow> ecWritten (cwConn w') = [d])"
proof -
  let ?w = "(server_world 1 now)\<lparr>cwConn := (server_connection now)\<lparr>ecWritten := [d]\<rparr>, cwWriter := WExit, cwAccepted := [d]\<rparr>"
  have "conn_run (server_world 1 now) [SendStart 0 (Some d), SendPut 0, SendStart 0 None, SendPut 0, WriteStep True, WriteStep True] =
      Some (Ret ?w)"
    by (simp add: server_world_def server_connection_def EASYCALL_WRITE_QUEUE_SIZE_def)
  moreover have "ecWritten (cwConn w') = [d]" if "conn_step\<^sup>*\<^sup>* ?w w'" for w'
    using stopped_writer [OF that] by simp
  moreover have "\<exists>e'. ProxyMiddleware cs dialed env answer None e = Done e' \<and> gxSent e' = [Some d, None]"
    using assms by (simp add: ProxyMiddleware_def pkg_accessors gx_send_def call_next_def Let_def)
  ultimately show ?thesis by fastforce
qed

text \<open>
  A reply is forwarded as the bytes the service sent, so it carries the number of the gateway's
  own session, whatever number the client's request had: a client that waits for its own number
  finds no session for it.
\<close>

theorem gateway_reply_has_other_number:
  assumes "EasyClient_RequestAsyncWithHead cs dialed env (pFormat (gxPkg e)) (pHead (gxPkg e)) (Bytes (pBodyData (gxPkg e))) (gxWorld e) =
      Some (Ret (Sent s head'), ec)"
    and "answer s = Some p" "GetPkgData p = Some d" "GetSeq (GetHead p) = GetSeq head'" "gxSent e = []"
  shows "\<exists>e'. ProxyMiddleware cs dialed env answer None e = Done e' \<and> gxSent e' = [Some d] \<and>
    GetSeq (GetHead p) = smSeq (clSessionMgr (client_for dialed (GetService (pHead (gxPkg e))) (gxWorld e))) + 1"
proof -
  have "GetSeq head' = smSeq (clSessionMgr (client_for dialed (GetService (pHead (gxPkg e))) (gxWorld e))) + 1"
    using assms(1)
    by (auto simp: EasyClient_RequestAsyncWithHead_def Let_def head_getters head_setters split: option.splits
        elim!: RequestAsyncWithHead_Sent)
  with assms show ?thesis
    by (simp add: ProxyMiddleware_def EasyClient_RequestWithHead_def easy_head_result_def pkg_accessors gx_send_def call_next_def Let_def)
qed

section \<open>Witnesses\<close>

definition sample_gateway :: "nat easy_client" where
  "sample_gateway = NewEasyClient [] 100 LB_ROUND_ROBIN"

lemma sample_gateway_sent:
  assumes "GetService head = ''profile''" "GetRouteKey head = ''''"
  shows "\<exists>head' ec'. EasyClient_RequestAsyncWithHead (with_json sample_codecs) None sample_client_env FORMAT_JSON head (Bytes bs) sample_gateway =
    Some (Ret (Sent 0 head'), ec')"
proof -
  have "client_for None ''profile'' sample_gateway = sample_client"
    by (simp add: client_for_def sample_gateway_def NewEasyClient_def sample_client_def)
  with sample_sent [OF assms, of FORMAT_JSON bs] assms show ?thesis
    by (auto simp: EasyClient_RequestAsyncWithHead_def)
qed

definition sample_http :: "nat http_exchange" where
  "sample_http =
     \<lparr>hxReq = \<lparr>hrPath = ''/profile/hello'', hrHeader = (\<lambda>_. ''''), hrRemoteAddr = ''10.1.1.1:7'', hrBody = Inr [2]\<rparr>,
      hxEvents = [], hxClient = sample_gateway\<rparr>"

lemma sample_http_head:
  "GetService (http_head (hxReq sample_http)) = ''profile''" "GetRouteKey (http_head (hxReq sample_http)) = ''''"
  using Split_two [of "CHR ''/''" "''profile''" "''hello''"]
  by (simp_all add: sample_http_def http_head_def http_target_def head_getters head_setters NewEasyHead_def Let_def)

lemma http_request_answered_witness:
  "\<exists>e'. HttpProxyMiddleware (with_json sample_codecs) None sample_client_env (\<lambda>_. None) None sample_http = Done e' \<and>
    hxEvents e' = [SetHeader ''X-Easycall-Ret'' ''1003'', HttpError ''request time out'' 500]"
proof -
  obtain head' ec' where "EasyClient_RequestAsyncWithHead (with_json sample_codecs) None sample_client_env FORMAT_JSON
      (http_head (hxReq sample_http)) (Bytes [2]) (hxClient sample_http) = Some (Ret (Sent 0 head'), ec')"
    using sample_gateway_sent [OF sample_http_head, of "[2]"] by (auto simp: sample_http_def)
  from http_request_answered [OF _ _ _ _ _ _ _ this, of "''profile''" "''hello''" "\<lambda>_. None"] show ?thesis
    by (simp add: sample_http_def)
qed

definition sample_forward :: "(nat, nat easy_client) gw_exchange" where
  "sample_forward =
     \<lparr>gxPkg = NewPackageWithBodyData FORMAT_JSON (SetSeq 77 plain_head) [2], gxSent = [], gxWorld = sample_gateway\<rparr>"

lemma sample_forward_simps:
  "pFormat (gxPkg sample_forward) = FORMAT_JSON" "pHead (gxPkg sample_forward) = SetSeq 77 plain_head"
  "pBodyData (gxPkg sample_forward) = [2]" "gxSent sample_forward = []" "gxWorld sample_forward = sample_gateway"
  "GetService (SetSeq 77 plain_head) = ''profile''" "GetRouteKey (SetSeq 77 plain_head) = ''''"
  using plain_head_simps by (simp_all add: sample_forward_def pkg_accessors head_getters head_setters)

lemma gateway_error_stops_connection_witness:
  "\<exists>e' d. ProxyMiddleware (with_json sample_codecs) (Some ''refused'') sample_client_env (\<lambda>_. None) None sample_forward = Done e' \<and>
    gxSent e' = [Some d, None]"
proof -
  obtain err head ec where r: "EasyClient_RequestWithHead (with_json sample_codecs) (Some ''refused'') sample_client_env (\<lambda>_. None)
      FORMAT_JSON (SetSeq 77 plain_head) (Bytes [2]) sample_gateway = Some (Ret (Inl err), head, ec)"
    by (simp add: EasyClient_RequestWithHead_def EasyClient_RequestAsyncWithHead_def client_for_def sample_gateway_def NewEasyClient_def
        RequestAsyncWithHead_def choose_node_def NewServiceClient_def NewNodeManager_def Let_def)
  moreover obtain d where "EncodeWithBody (with_json sample_codecs) (NewPackageWithBody FORMAT_JSON (SetMsg (seMsg err) (SetRet (seRet err) head)) None) = Inr d"
    by (simp add: EncodeWithBody_Inr_conv with_json_def codec_of.simps pkg_accessors json_enc_head_def sample_json_body)
  ultimately show ?thesis
    using gateway_error_stops_connection [of "with_json sample_codecs" "Some ''refused''" sample_client_env "\<lambda>_. None" sample_forward err head ec d 9]
    by (auto simp: sample_forward_simps)
qed

lemma gateway_reply_has_other_number_witness:
  "\<exists>e' p d. ProxyMiddleware (with_json sample_codecs) None sample_client_env (\<lambda>_. Some p) None sample_forward = Done e' \<and>
    gxSent e' = [Some d] \<and> GetPkgData p = Some d \<and> GetSeq (GetHead p) = 1 \<and> GetSeq (GetHead (gxPkg sample_forward)) = 77"
proof -
  obtain head' ec where r: "EasyClient_RequestAsyncWithHead (with_json sample_codecs) None sample_client_env FORMAT_JSON
      (SetSeq 77 plain_head) (Bytes [2]) sample_gateway = Some (Ret (Sent 0 head'), ec)"
    using sample_gateway_sent [OF sample_forward_simps(6,7)] by blast
  let ?p = "(NewPackageWithBodyData FORMAT_JSON head' [5])\<lparr>pPkgData := Some [8]\<rparr> :: nat easy_package"
  have "client_for None ''profile'' sample_gateway = sample_client"
    by (simp add: client_for_def sample_gateway_def NewEasyClient_def sample_client_def)
  then have n: "smSeq (clSessionMgr (client_for None ''profile'' sample_gateway)) = 0"
    by (simp add: sample_client_def NewServiceClient_def sm_init_def)
  have "GetPkgData ?p = Some [8]" by (simp add: pkg_accessors)
  moreover obtain e' where "ProxyMiddleware (with_json sample_codecs) None sample_client_env (\<lambda>_. Some ?p) None sample_forward = Done e'"
    "gxSent e' = [Some [8]]" "GetSeq (GetHead ?p) = 1"
    using gateway_reply_has_other_number [of "with_json sample_codecs" None sample_client_env sample_forward 0 head' ec "\<lambda>_. Some ?p" ?p "[8]"] r n
    by (auto simp: sample_forward_simps pkg_accessors)
  moreover have "GetSeq (GetHead (gxPkg sample_forward)) = 77"
    by (simp add: sample_forward_simps pkg_accessors head_getters head_setters)
  ultimately show ?thesis by blast
qed

end
