(* ===== verification/Server.thy ===== *)
theory Server
  imports Easy_Connection Service_Handler
begin

text \<open>
  The listening sides: the TCP server (\<open>server.go\<close>), the HTTP server (\<open>http_server.go\<close>) and the
  gateway that starts both (\<open>gateway.go\<close>). What \<open>Listen\<close>, \<open>Accept\<close> and \<open>ListenAndServe\<close> answer is an
  argument; the connections that are accepted are those of \<open>Easy_Connection\<close>.
\<close>

section \<open>The TCP server\<close>

definition TCP_KEEPALIVE_PERIOD :: int where "TCP_KEEPALIVE_PERIOD = 15"

text \<open>An accepted connection with its socket options (period in nanoseconds) and its handler.\<close>

record 'h accepted_conn =
  acKeepAlive :: bool
  acKeepAlivePeriod :: int
  acNoDelay :: bool
  acHandler :: 'h
  acWorld :: conn_world    \<comment> \<open>with the goroutines \<open>Read\<close> and \<open>Write\<close>\<close>

text \<open>
  One round of the loop. \<open>Accept\<close> gives an error, or a connection together with the clock and the
  number of goroutines that will call its \<open>Send\<close>.
\<close>

definition accept_round ::
    "'h \<Rightarrow> go_error + (int \<times> nat) \<Rightarrow> 'h accepted_conn option" where
  "accept_round handler a =
     (case a of
        Inl err \<Rightarrow> None
      | Inr (now, n) \<Rightarrow>
          Some \<lparr>acKeepAlive = True, acKeepAlivePeriod = 60 * 10 ^ 9 * TCP_KEEPALIVE_PERIOD, acNoDelay = True,
                acHandler = handler, acWorld = server_world n now\<rparr>)"

fun accept_loop :: "'h \<Rightarrow> (go_error + (int \<times> nat)) list \<Rightarrow> 'h accepted_conn list" where
  "accept_loop handler [] = []"
| "accept_loop handler (a # as) =
     (case accept_round handler a of
        None \<Rightarrow> accept_loop handler as
      | Some client \<Rightarrow> client # accept_loop handler as)"

text \<open>The returned error, the address that was asked for and the connections of the first rounds.\<close>

definition CreateServer ::
    "(string \<Rightarrow> go_error option) \<Rightarrow> (go_error + (int \<times> nat)) list \<Rightarrow> int \<Rightarrow> 'h
       \<Rightarrow> go_error option \<times> string \<times> 'h accepted_conn list" where
  "CreateServer listen as port handler =
     (let addr = '':'' @ Itoa port in
      case listen addr of
        Some err \<Rightarrow> (Some err, addr, [])
      | None \<Rightarrow> (None, addr, accept_loop handler as))"

section \<open>The HTTP server\<close>

definition HTTP_READ_WRITE_TIMEOUT :: int where "HTTP_READ_WRITE_TIMEOUT = 10"

record 'h http_srv =
  srvAddr :: string
  srvHandler :: 'h
  srvReadTimeout :: int
  srvWriteTimeout :: int

text \<open>\<open>serve\<close> is \<open>ListenAndServe\<close>: the error it ends with.\<close>

definition CreateHttpServer :: "('h http_srv \<Rightarrow> go_error option) \<Rightarrow> int \<Rightarrow> 'h \<Rightarrow> go_error option" where
  "CreateHttpServer serve port handler =
     serve \<lparr>srvAddr = '':'' @ Itoa port, srvHandler = handler,
            srvReadTimeout = HTTP_READ_WRITE_TIMEOUT * 10 ^ 9, srvWriteTimeout = HTTP_READ_WRITE_TIMEOUT * 10 ^ 9\<rparr>"

section \<open>The gateway\<close>

definition StartGWServer ::
    "(string \<Rightarrow> go_error option) \<Rightarrow> (go_error + (int \<times> nat)) list \<Rightarrow> int \<Rightarrow> 's gateway_handler
       \<Rightarrow> go_error option \<times> string \<times> 's gateway_handler accepted_conn list" where
  "StartGWServer listen as port handler = CreateServer listen as port handler"

definition StartHttpGWServer :: "('h http_srv \<Rightarrow> go_error option) \<Rightarrow> int \<Rightarrow> 'h \<Rightarrow> go_error option" where
  "StartHttpGWServer serve port handler = CreateHttpServer serve port handler"

section \<open>What the loop accepts\<close>

text \<open>An error of \<open>Accept\<close> costs nothing but its round: all other connections are served, in order.\<close>

lemma accept_loop_filter:
  "accept_loop handler as = List.map_filter (accept_round handler) as"
  by (induction as) (auto simp: List.map_filter_simps split: option.split)

lemma accept_loop_append: "accept_loop handler (as @ bs) = accept_loop handler as @ accept_loop handler bs"
  by (simp add: accept_loop_filter List.map_filter_def)

lemma accepted_connections:
  assumes "c \<in> set (accept_loop handler as)"
  shows "acHandler c = handler" "\<exists>n now. Inr (now, n) \<in> set as \<and> acWorld c = server_world n now"
proof -
  from assms obtain a where "a \<in> set as" "accept_round handler a = Some c"
    by (auto simp: accept_loop_filter List.map_filter_def)
  then show "acHandler c = handler" "\<exists>n now. Inr (now, n) \<in> set as \<and> acWorld c = server_world n now"
    by (auto simp: accept_round_def split: sum.splits) blast
qed

end
