(* ===== verification/Pool_Progress.thy ===== *)
theory Pool_Progress
  imports Generic_Pool
begin

text \<open>
  A pool that one goroutine uses, each time taking a resource and giving it back: it is \<open>calm\<close>
  between the calls, \<open>Acquire\<close> never waits and never fails but by the factory, and \<open>Release\<close> never
  blocks. The clients rest on the interface \<open>lending\<close>, which the pool provides.
\<close>

section \<open>The interface\<close>

text \<open>Taking and giving back in turns.\<close>

fun turns :: "('p \<Rightarrow> (('e + 'c) \<times> 'p) option) \<Rightarrow> ('c \<Rightarrow> 'p \<Rightarrow> 'p option) \<Rightarrow> nat \<Rightarrow> 'p \<Rightarrow> 'p option" where
  "turns lend give 0 p = Some p"
| "turns lend give (Suc n) p =
     (case lend p of
        None \<Rightarrow> None
      | Some (Inl e, p) \<Rightarrow> turns lend give n p
      | Some (Inr c, p) \<Rightarrow> (case give c p of None \<Rightarrow> None | Some p \<Rightarrow> turns lend give n p))"

locale lending =
  fixes lend :: "'p \<Rightarrow> (('e + 'c) \<times> 'p) option"
    and give :: "'c \<Rightarrow> 'p \<Rightarrow> 'p option"
    and calm :: "'p \<Rightarrow> bool"
    and lent :: "'p \<Rightarrow> bool"
  assumes lend_returns: "calm p \<Longrightarrow> \<exists>r p'. lend p = Some (r, p')"
    and lend_error: "calm p \<Longrightarrow> lend p = Some (Inl e, p') \<Longrightarrow> calm p'"
    and lend_lends: "calm p \<Longrightarrow> lend p = Some (Inr c, p') \<Longrightarrow> lent p'"
    and give_returns: "lent p \<Longrightarrow> \<exists>p'. give c p = Some p' \<and> calm p'"
begin

lemma one_turn:
  assumes "calm p"
  obtains (failed) e p' where "lend p = Some (Inl e, p')" "calm p'"
    | (served) c p1 p' where "lend p = Some (Inr c, p1)" "give c p1 = Some p'" "calm p'"
proof -
  obtain r p1 where t: "lend p = Some (r, p1)" using lend_returns [OF assms] by blast
  show thesis
  proof (cases r)
    case (Inl e)
    with t lend_error [OF assms] failed show thesis by blast
  next
    case (Inr c)
    with t lend_lends [OF assms] give_returns served show thesis by blast
  qed
qed

lemma turns_return: "calm p \<Longrightarrow> \<exists>p'. turns lend give n p = Some p' \<and> calm p'"
proof (induction n arbitrary: p)
  case (Suc n)
  show ?case
    by (rule one_turn [OF Suc.prems]) (use Suc.IH in auto)
qed simp

end

section \<open>The pool\<close>

definition calm_pool :: "'c generic_pool \<Rightarrow> bool" where
  "calm_pool pool \<longleftrightarrow> \<not> gpShutdown pool \<and> \<not> gpClosed pool \<and> 0 < gpMaxSize pool \<and> gpMaxSize pool < 2 ^ 30 \<and>
     gpMaxSize pool < gpCap pool \<and> gpCurSize pool = int (length (gpChan pool)) \<and> gpCurSize pool \<le> gpMaxSize pool"

text \<open>One resource is out.\<close>

definition lent_pool :: "'c generic_pool \<Rightarrow> bool" where
  "lent_pool pool \<longleftrightarrow> \<not> gpShutdown pool \<and> \<not> gpClosed pool \<and> 0 < gpMaxSize pool \<and> gpMaxSize pool < 2 ^ 30 \<and>
     gpMaxSize pool < gpCap pool \<and> gpCurSize pool = int (length (gpChan pool)) + 1 \<and> gpCurSize pool \<le> gpMaxSize pool"

lemma small_i32: "0 \<le> x \<Longrightarrow> x \<le> 2 ^ 30 \<Longrightarrow> i32 x = x"
  by (rule i32_id) auto

lemma lent_to_calm:
  "lent_pool (pool\<lparr>gpChan := cs\<rparr>) \<Longrightarrow> vet m now c (pool\<lparr>gpChan := cs\<rparr>) = (None, pool') \<Longrightarrow> calm_pool pool'"
  by (auto simp: lent_pool_def calm_pool_def vet_def small_i32 split: if_splits)

lemma acquire_loop_calm:
  assumes "calm_pool pool" "fresh_factory m now (gpLifetime pool) f" "length (gpChan pool) < n"
  shows "\<exists>r pool'. acquire_loop n m f now arrivals pool = Some (Ret r, pool') \<and> gpLifetime pool' = gpLifetime pool \<and>
    gpMaxSize pool' = gpMaxSize pool \<and> (case r of Inl e \<Rightarrow> calm_pool pool' | Inr c \<Rightarrow> lent_pool pool')"
  using assms
proof (induction n arbitrary: pool)
  case (Suc n)
  show ?case
  proof (cases "gpChan pool")
    case Nil
    with Suc.prems show ?thesis
      by (auto simp: calm_pool_def lent_pool_def getOrCreate_def poll_def create_def vet_def fresh_factory_def Let_def
          small_i32 split: sum.split)
  next
    case (Cons c cs)
    let ?p = "pool\<lparr>gpChan := cs\<rparr>"
    have g: "getOrCreate f (arrivals n) pool = (Inr (Conn c), ?p)"
      using Suc.prems(1) Cons by (simp add: getOrCreate_def poll_def calm_pool_def)
    have l: "lent_pool ?p"
      using Suc.prems(1) Cons by (simp add: calm_pool_def lent_pool_def)
    obtain v p2 where v: "vet m now c ?p = (v, p2)" by fastforce
    show ?thesis
    proof (cases v)
      case None
      with v have v': "vet m now c ?p = (None, p2)" by simp
      note k = vet_smaller [OF v'] lent_to_calm [OF l v']
      with Suc.prems(2,3) Cons have "\<exists>r pool'. acquire_loop n m f now arrivals p2 = Some (Ret r, pool') \<and>
          gpLifetime pool' = gpLifetime p2 \<and> gpMaxSize pool' = gpMaxSize p2 \<and>
          (case r of Inl e \<Rightarrow> calm_pool pool' | Inr c \<Rightarrow> lent_pool pool')"
        by (intro Suc.IH) auto
      with g v' k show ?thesis by simp
    next
      case (Some x)
      with v have "p2 = ?p" by (auto simp: vet_def split: if_splits)
      with g v l Some show ?thesis by simp
    qed
  qed
qed simp

lemma Release_lent:
  "lent_pool pool \<Longrightarrow> \<exists>pool'. Release c pool = Some (Ret None, pool') \<and> calm_pool pool' \<and>
     gpLifetime pool' = gpLifetime pool \<and> gpMaxSize pool' = gpMaxSize pool"
  by (auto simp: lent_pool_def calm_pool_def Release_def)

lemma NewGenericPool_calm:
  assumes "NewGenericPool minSize maxSize lifetime f = Ret pool" "0 < gpMaxSize pool" "gpMaxSize pool < 2 ^ 30"
  shows "calm_pool pool"
  using NewGenericPool_inv [OF assms] assms(2,3) by (simp add: calm_pool_def)

section \<open>The pool provides the interface\<close>

text \<open>Calls with enough fuel and a factory of fresh resources; a panic would be \<open>None\<close>.\<close>

definition lend_conn ::
    "'c poolable \<Rightarrow> 'c conn_factory \<Rightarrow> int \<Rightarrow> (nat \<Rightarrow> received) \<Rightarrow> 'c generic_pool
       \<Rightarrow> ((go_error + conn_ref) \<times> 'c generic_pool) option" where
  "lend_conn m f now arrivals pool =
     (case Acquire (Suc (length (gpChan pool))) m f now arrivals pool of
        Some (Ret r, pool') \<Rightarrow> Some (r, pool')
      | _ \<Rightarrow> None)"

definition give_conn :: "conn_ref \<Rightarrow> 'c generic_pool \<Rightarrow> 'c generic_pool option" where
  "give_conn c pool = (case Release c pool of Some (Ret None, pool') \<Rightarrow> Some pool' | _ \<Rightarrow> None)"

definition fresh_lifetime :: "'c poolable \<Rightarrow> int \<Rightarrow> 'c conn_factory \<Rightarrow> 'c generic_pool \<Rightarrow> bool" where
  "fresh_lifetime m now f pool \<longleftrightarrow> fresh_factory m now (gpLifetime pool) f"

lemma lend_conn_calm:
  assumes "calm_pool pool" "fresh_lifetime m now f pool"
  shows "\<exists>r pool'. lend_conn m f now arrivals pool = Some (r, pool') \<and> fresh_lifetime m now f pool' \<and>
    (case r of Inl e \<Rightarrow> calm_pool pool' | Inr c \<Rightarrow> lent_pool pool')"
proof -
  obtain r pool' where a: "acquire_loop (Suc (length (gpChan pool))) m f now arrivals pool = Some (Ret r, pool')"
    "gpLifetime pool' = gpLifetime pool" "case r of Inl e \<Rightarrow> calm_pool pool' | Inr c \<Rightarrow> lent_pool pool'"
    using acquire_loop_calm [OF assms(1) assms(2) [unfolded fresh_lifetime_def] lessI] by blast
  with assms show ?thesis
    by (auto simp: lend_conn_def Acquire_def calm_pool_def fresh_lifetime_def simp del: acquire_loop.simps)
qed

interpretation pool_lends: lending "lend_conn m f now arrivals" give_conn
    "\<lambda>pool. calm_pool pool \<and> fresh_lifetime m now f pool" "\<lambda>pool. lent_pool pool \<and> fresh_lifetime m now f pool"
  for m f now arrivals
proof
  fix p assume p: "calm_pool p \<and> fresh_lifetime m now f p"
  note t = lend_conn_calm [OF conjunct1 [OF p] conjunct2 [OF p], of arrivals]
  show "\<exists>r p'. lend_conn m f now arrivals p = Some (r, p')" using t by blast
  show "calm_pool p' \<and> fresh_lifetime m now f p'" if "lend_conn m f now arrivals p = Some (Inl e, p')" for e p'
    using t that by auto
  show "lent_pool p' \<and> fresh_lifetime m now f p'" if "lend_conn m f now arrivals p = Some (Inr c, p')" for c p'
    using t that by auto
next
  fix p c assume "lent_pool p \<and> fresh_lifetime m now f p"
  with Release_lent [of p c] show "\<exists>p'. give_conn c p = Some p' \<and> (calm_pool p' \<and> fresh_lifetime m now f p')"
    by (auto simp: give_conn_def fresh_lifetime_def)
qed

end
