(* ===== verification/Client_Progress.thy ===== *)
theory Client_Progress
  imports Service_Client Pool_Progress
begin

text \<open>
  A client whose requests are made one after another never panics and never waits for a connection:
  whatever etcd, the network and the serialisers answer, \<open>RequestAsyncWithHead\<close> comes to an end. The
  proof follows the request through the node list, the load balancer and the pool, each with the
  facts of its own theory. Weighted choice is left out, because \<open>rand.Intn\<close> panics when the weights
  in etcd add up to nothing.
\<close>

section \<open>The invariant of the client\<close>

definition calm_list :: "'b service_client \<Rightarrow> bool" where
  "calm_list ec \<longleftrightarrow> (\<forall>nm ps. clNodeMgr ec = Some nm \<longrightarrow> nmNodeList nm = Some ps \<longrightarrow> length ps < 2 ^ 32)"

definition calm_client :: "'b service_client \<Rightarrow> bool" where
  "calm_client ec \<longleftrightarrow> pools_ok ec \<and> calm_list ec \<and>
     (\<forall>k pool. clPoolMap ec k = Some pool \<longrightarrow> calm_pool pool \<and> 0 \<le> gpLifetime pool)"

text \<open>Twelve rounds suffice for \<open>Acquire\<close>: ten queued connections, one dial and the end.\<close>

definition calm_env :: "client_env \<Rightarrow> bool" where
  "calm_env env \<longleftrightarrow> 12 \<le> ceFuel env \<and> draw_ok (ceDraw env) \<and> (\<forall>p kvs. cePath env p = Inr kvs \<longrightarrow> length kvs < 2 ^ 32)"

section \<open>The pool\<close>

lemma fill_lifetime: "gpLifetime (fill n f pool) = gpLifetime pool"
proof (induction n arbitrary: pool)
  case (Suc n)
  then show ?case
    by (cases "f (gpAttempts pool)") (simp_all add: create_def Let_def)
qed simp

lemma get_pool_calm:
  assumes "calm_client ec"
  shows "\<exists>pool. get_pool env nd ec = Ret pool \<and> calm_pool pool \<and> gpMaxSize pool = 10 \<and> 0 \<le> gpLifetime pool"
proof (cases "clPoolMap ec (pool_key nd)")
  case None
  have i: "i32 10 = 10" "i32 0 = 0" "i32 20 = 20" by (simp_all add: i32_id)
  have z: "clPoolSize ec = 0" using assms by (simp add: calm_client_def pools_ok_def)
  then obtain pool where p: "get_pool env nd ec = Ret pool"
    using None by (simp add: get_pool_def NewGenericPool_def POOL_MIN_SIZE_def Let_def i)
  with assms get_pool_maxSize [OF _ p] have m: "gpMaxSize pool = 10" by (simp add: calm_client_def)
  from p None z have n: "NewGenericPool 10 0 1800000000000 (connFactory env nd) = Ret pool"
    by (simp add: get_pool_def POOL_MIN_SIZE_def POOL_ACTIVE_TIME_def i)
  then have "gpLifetime pool = 1800000000000"
    by (auto simp: NewGenericPool_def Let_def fill_lifetime i split: if_splits)
  with NewGenericPool_calm [OF n] p m show ?thesis by auto
next
  case (Some pool)
  with assms show ?thesis
    by (auto simp: get_pool_def calm_client_def pools_ok_def)
qed

lemma calm_put:
  "calm_client ec \<Longrightarrow> calm_pool pool \<Longrightarrow> gpMaxSize pool = 10 \<Longrightarrow> 0 \<le> gpLifetime pool \<Longrightarrow> calm_client (put_pool nd pool ec)"
  by (auto simp: calm_client_def calm_list_def put_pool_def pools_ok_def)

lemma borrow_calm:
  assumes "calm_client ec" "calm_env env"
  shows "\<exists>r ec'. borrow env nd ec = Some (Ret r, ec') \<and> calm_client ec' \<and> clLb ec' = clLb ec"
proof -
  obtain pool where p: "get_pool env nd ec = Ret pool" "calm_pool pool" "gpMaxSize pool = 10" "0 \<le> gpLifetime pool"
    using get_pool_calm [OF assms(1)] by blast
  have "length (gpChan pool) < ceFuel env"
    using p(2,3) assms(2) by (simp add: calm_pool_def calm_env_def)
  from acquire_loop_calm [OF p(2) connFactory_fresh [OF p(4)] this, of env nd "ceArrivals env"]
  obtain r p1 where a: "Acquire (ceFuel env) EasyConnection (connFactory env nd) (ceNow env) (ceArrivals env) pool = Some (Ret r, p1)"
    "gpLifetime p1 = gpLifetime pool" "gpMaxSize p1 = gpMaxSize pool" "case r of Inl e \<Rightarrow> calm_pool p1 | Inr c \<Rightarrow> lent_pool p1"
    using p(2) by (auto simp: Acquire_def calm_pool_def)
  show ?thesis
  proof (cases r)
    case (Inl e)
    with a p calm_put [OF assms(1), of p1 nd] show ?thesis by (simp add: borrow_def put_pool_def)
  next
    case (Inr c)
    with a obtain p2 where "Release c p1 = Some (Ret None, p2)" "calm_pool p2" "gpLifetime p2 = gpLifetime p1" "gpMaxSize p2 = gpMaxSize p1"
      using Release_lent [of p1 c] by auto
    with Inr a p calm_put [OF assms(1), of p2 nd] show ?thesis by (simp add: borrow_def put_pool_def)
  qed
qed

section \<open>The node\<close>

lemma node_loop_length: "length (fst (node_loop vs ns)) \<le> length vs"
proof (induction vs arbitrary: ns)
  case (Cons v vs)
  show ?case
    using Cons.IH by (simp add: Let_def split_beta le_SucI split: sum.split)
qed simp

text \<open>A look-up gives an error or a list of less than 2^32 nodes, which is also what is kept.\<close>

lemma getNodes_length:
  assumes "getNodes q t later nm ns = (r, nm', ns')" "\<And>p kvs. q p = Inr kvs \<Longrightarrow> length kvs < 2 ^ 32"
    and "\<And>ps. nmNodeList nm = Some ps \<Longrightarrow> length ps < 2 ^ 32"
  shows "(\<forall>ps. nmNodeList nm' = Some ps \<longrightarrow> length ps < 2 ^ 32) \<and> (\<forall>l. r = Inr l \<longrightarrow> (\<exists>ps. l = Some ps \<and> length ps < 2 ^ 32))"
proof (cases "nmNodeList nm")
  case None
  show ?thesis
  proof (cases "q (nodePrefix (nmServiceName nm))")
    case (Inl e)
    with None assms(1) show ?thesis
      by (auto simp: getNodes_def loadServiceNode_def Let_def split: if_splits)
  next
    case (Inr kvs)
    have "length (fst (node_loop (map snd kvs) ns)) < 2 ^ 32"
      using node_loop_length [of "map snd kvs" ns] assms(2) [OF Inr] by simp
    with None Inr assms(1) show ?thesis
      by (auto simp: getNodes_def loadServiceNode_def Let_def split_beta split: if_splits)
  qed
next
  case (Some ps)
  with assms show ?thesis by (auto simp: getNodes_def Let_def split: if_splits)
qed

lemma call_getNodes_calm:
  assumes "calm_client ec" "calm_env env" "clNodeMgr ec = Some nm" "call_getNodes env nm ec = (r, ec1)"
  shows "calm_client ec1 \<and> clLb ec1 = clLb ec \<and> (\<forall>l. r = Inr l \<longrightarrow> (\<exists>ps. l = Some ps \<and> length ps < 2 ^ 32))"
proof -
  obtain nm' ns' where g: "getNodes (cePath env) (ceTime env) (ceLater env) nm
      \<lparr>nsHeap = smNodes (clSessionMgr ec), nsNext = clNextNode ec\<rparr> = (r, nm', ns')" and ec1: "clNodeMgr ec1 = Some nm'"
    using assms(4) by (auto simp: call_getNodes_def split: prod.splits)
  have "\<And>ps. nmNodeList nm = Some ps \<Longrightarrow> length ps < 2 ^ 32"
    using assms(1,3) by (simp add: calm_client_def calm_list_def)
  with getNodes_length [OF g] assms(2)
  have l: "(\<forall>ps. nmNodeList nm' = Some ps \<longrightarrow> length ps < 2 ^ 32) \<and> (\<forall>l. r = Inr l \<longrightarrow> (\<exists>ps. l = Some ps \<and> length ps < 2 ^ 32))"
    by (simp add: calm_env_def)
  with call_getNodes_frame [OF assms(4)] assms(1) ec1 show ?thesis
    by (auto simp: calm_client_def calm_list_def pools_ok_def)
qed

lemma calm_lb [simp]: "calm_client (ec\<lparr>clLb := lb\<rparr>) = calm_client ec"
  by (simp add: calm_client_def calm_list_def pools_ok_def)

definition plain_type :: "int \<Rightarrow> bool" where
  "plain_type ty \<longleftrightarrow> ty \<in> {LB_ACTIVE, LB_RANDOM, LB_HASH, LB_ROUND_ROBIN}"

lemma GetNode_calm:
  assumes "seq_ready lb" "draw_ok draw" "length ps < 2 ^ 32" "plain_type ty"
  shows "\<exists>r lb'. GetNode h draw ty key (SetNodes ps lb) = Ret (r, lb') \<and> (lbSeq lb' = lbSeq lb \<or> lbSeq lb' = lbSeq lb + 1)"
proof -
  have "\<exists>r lb'. GetNode h draw ty key (SetNodes ps lb) = Ret (r, lb')"
  proof (cases "ps = []")
    case False
    have "\<exists>n lb'. GetNode h draw ty key (SetNodes ps lb) = Ret (Inr n, lb') \<and> n \<in> set (lbNodeList (SetNodes ps lb)) \<and>
        lbNodeList lb' = lbNodeList (SetNodes ps lb)"
      by (rule GetNode_found) (use assms False in \<open>auto simp: SetNodes_def seq_ready_def plain_type_def lb_types\<close>)
    then show ?thesis by blast
  qed (simp add: GetNode_def SetNodes_def)
  then obtain r lb' where g: "GetNode h draw ty key (SetNodes ps lb) = Ret (r, lb')" by blast
  from GetNode_seq [OF this] assms(1) have "lbSeq lb' = lbSeq lb \<or> lbSeq lb' = lbSeq lb + 1"
    by (simp add: SetNodes_def seq_ready_def)
  with g show ?thesis by blast
qed

lemma choose_calm:
  assumes "calm_client ec" "calm_env env" "seq_ready (clLb ec)" "plain_type (clLoadBalanceType ec)"
  shows "\<exists>r ec'. choose_node env head ec = (Ret r, ec') \<and> calm_client ec' \<and>
    (lbSeq (clLb ec') = lbSeq (clLb ec) \<or> lbSeq (clLb ec') = lbSeq (clLb ec) + 1)"
proof (cases "GetService head = clServiceName ec \<and> clNodeMgr ec \<noteq> None")
  case True
  then obtain nm where nm: "clNodeMgr ec = Some nm" by blast
  obtain q ec1 where q: "call_getNodes env nm ec = (q, ec1)" by fastforce
  note c = call_getNodes_calm [OF assms(1,2) nm q]
  let ?ty = "if GetRouteKey head \<noteq> '''' then LB_HASH else clLoadBalanceType ec"
  have ty: "plain_type ?ty" using assms(4) by (simp add: plain_type_def)
  show ?thesis
  proof (cases q)
    case (Inl e)
    with True nm q c show ?thesis by (simp add: choose_node_def Let_def)
  next
    case (Inr l)
    with c obtain ps where ps: "l = Some ps" "length ps < 2 ^ 32" by blast
    obtain r lb' where g: "GetNode (smNodes (clSessionMgr ec1)) (ceDraw env) ?ty (GetRouteKey head) (SetNodes ps (clLb ec1)) = Ret (r, lb')"
      "lbSeq lb' = lbSeq (clLb ec1) \<or> lbSeq lb' = lbSeq (clLb ec1) + 1"
      using GetNode_calm [OF _ _ ps(2) ty] assms(2,3) c by (metis calm_env_def)
    have "choose_node env head ec = (Ret (map_sum (NewSystemError ERROR_INTERNAL_ERROR) id r), ec1\<lparr>clLb := lb'\<rparr>)"
      using True nm q Inr ps(1) g(1) by (cases r) (simp_all add: choose_node_def Let_def)
    with g(2) c show ?thesis by simp
  qed
next
  case False
  with assms(1) show ?thesis
    by (auto simp: choose_node_def)
qed

section \<open>The request\<close>

lemma submit_calm:
  "submit cs fmt head body node c ec = (r, ec') \<Longrightarrow> calm_client ec \<Longrightarrow>
     calm_client ec' \<and> clLb ec' = clLb ec"
  by (auto simp: submit_eq Let_def calm_client_def calm_list_def pools_ok_def split: sum.splits)

lemma request_calm:
  assumes "calm_client ec" "calm_env env" "seq_ready (clLb ec)" "plain_type (clLoadBalanceType ec)"
  shows "\<exists>r ec'. RequestAsyncWithHead cs env fmt head body ec = Some (Ret r, ec') \<and> calm_client ec' \<and>
    (lbSeq (clLb ec') = lbSeq (clLb ec) \<or> lbSeq (clLb ec') = lbSeq (clLb ec) + 1)"
proof -
  obtain n ec1 where n: "choose_node env head ec = (Ret n, ec1)" "calm_client ec1"
    "lbSeq (clLb ec1) = lbSeq (clLb ec) \<or> lbSeq (clLb ec1) = lbSeq (clLb ec) + 1"
    using choose_calm [OF assms] by blast
  show ?thesis
  proof (cases n)
    case (Inr node)
    obtain b ec2 where b: "borrow env (node_of node ec1) ec1 = Some (Ret b, ec2)" "calm_client ec2" "clLb ec2 = clLb ec1"
      using borrow_calm [OF n(2) assms(2)] by blast
    show ?thesis
    proof (cases b)
      case (Inr c)
      obtain q ec3 where q: "submit cs fmt head body node c ec2 = (q, ec3)" by fastforce
      with submit_calm [OF q b(2)] n b \<open>n = Inr node\<close> Inr show ?thesis
        by (simp add: RequestAsyncWithHead_def)
    qed (use n b Inr in \<open>simp add: RequestAsyncWithHead_def\<close>)
  qed (use n in \<open>simp add: RequestAsyncWithHead_def\<close>)
qed

lemma lbType_kept:
  assumes "RequestAsyncWithHead cs env fmt head body ec = Some (r, ec')"
  shows "clLoadBalanceType ec' = clLoadBalanceType ec"
proof -
  have b: "borrow env nd e1 = Some (x, e2) \<Longrightarrow> clLoadBalanceType e2 = clLoadBalanceType e1" for nd e1 x e2
    by (auto simp: borrow_def put_pool_def split: outcome.splits option.splits sum.splits prod.splits)
  show ?thesis
    by (rule RequestAsyncWithHead_keeps [OF assms, where P = "\<lambda>c. clLoadBalanceType c = clLoadBalanceType ec"])
       (auto simp: submit_eq Let_def dest: choose_node_frame b split: sum.splits)
qed

text \<open>Before the \<open>n\<close>-th request.\<close>

definition serving :: "nat \<Rightarrow> 'b service_client \<Rightarrow> bool" where
  "serving n ec \<longleftrightarrow> calm_client ec \<and> plain_type (clLoadBalanceType ec) \<and> 0 \<le> lbSeq (clLb ec) \<and> lbSeq (clLb ec) \<le> int n"

lemma serving_request:
  assumes "serving n ec" "n < 2 ^ 63 - 1" "calm_env env"
  shows "\<exists>r ec'. RequestAsyncWithHead cs env fmt head body ec = Some (Ret r, ec') \<and> serving (Suc n) ec'"
proof -
  have "seq_ready (clLb ec)" using assms(1,2) by (simp add: serving_def seq_ready_def)
  then obtain r ec' where "RequestAsyncWithHead cs env fmt head body ec = Some (Ret r, ec')" "calm_client ec'"
    "lbSeq (clLb ec') = lbSeq (clLb ec) \<or> lbSeq (clLb ec') = lbSeq (clLb ec) + 1"
    using request_calm [of ec env cs fmt head body] assms by (auto simp: serving_def)
  moreover from this lbType_kept have "clLoadBalanceType ec' = clLoadBalanceType ec" by blast
  ultimately show ?thesis using assms(1) by (auto simp: serving_def)
qed

lemma serving_all:
  "serving n ec \<Longrightarrow> n + length reqs < 2 ^ 63 \<Longrightarrow> \<forall>(env, fmt, head, body) \<in> set reqs. calm_env env \<Longrightarrow>
     serving (n + length reqs) (request_all cs reqs ec)"
proof (induction reqs arbitrary: n ec)
  case (Cons x reqs)
  obtain env fmt head body where x: "x = (env, fmt, head, body)" by (cases x)
  obtain r ec' where r: "RequestAsyncWithHead cs env fmt head body ec = Some (Ret r, ec')" "serving (Suc n) ec'"
    using serving_request [OF Cons.prems(1), of env cs fmt head body] Cons.prems(2,3) x by auto
  with Cons.IH [OF r(2)] Cons.prems(2,3) show ?case by (simp add: x)
qed simp

lemma serving_new: "plain_type lbType \<Longrightarrow> serving 0 (NewServiceClient dialed name poolSize lbType)"
  by (auto simp: serving_def calm_client_def calm_list_def pools_ok_def NewServiceClient_def NewLoadBalancer_def
      NewNodeManager_def split: option.splits)



end
