(* ===== verification/Example_Service.thy ===== *)
theory Example_Service
  imports Service_Context Apm_Monitor
begin

text \<open>
  The example service (\<open>example/example_service.go\<close>): the service \<open>profile\<close> with its method
  \<open>GetProfile\<close>, behind the monitor. It is the program's own instance of what the other theories leave
  open: the bodies are JSON maps (\<open>map[string]interface{}\<close> with the serialiser of \<open>Json_Head\<close>), the
  methods are those of \<open>ProfileService\<close>, and the chain is the one \<open>main\<close> builds. msgpack stays a
  parameter.
\<close>

section \<open>Bodies\<close>

text \<open>A map with string keys, as the sorted list that the encoder writes.\<close>

type_synonym json_map = "(string \<times> json_value) list"

definition enc_map :: "json_map option \<Rightarrow> go_error + byte list" where
  "enc_map body =
     Inr (to_bytes (case body of
       None \<Rightarrow> ''null'' @ [CHR 0x0A]
     | Some kvs \<Rightarrow> [CHR ''{''] @ enc_members kvs @ [CHR ''}'', CHR 0x0A]))"

definition dec_map :: "byte list \<Rightarrow> go_error + json_map" where
  "dec_map b =
     (let s = of_bytes b in
      case parse_value (Suc (length s)) s of
        None \<Rightarrow> Inl ''invalid character or EOF''
      | Some (JObj kvs, _) \<Rightarrow> Inr kvs
      | Some (JNull, _) \<Rightarrow> Inr []
      | Some _ \<Rightarrow> Inl mismatch)"

definition map_codecs :: "json_map codec \<Rightarrow> json_map codecs" where
  "map_codecs mp =
     \<lparr>json = \<lparr>enc_head = json_enc_head, dec_head = json_dec_head, enc_body = enc_map, dec_body = dec_map, dec_by_value = dec_map\<rparr>,
      msgpack = mp\<rparr>"

lemma map_codecs_json [simp]: "with_json (map_codecs mp) = map_codecs mp" "enc_body (json (map_codecs mp)) = enc_map"
  "dec_body (json (map_codecs mp)) = dec_map"
  by (simp_all add: map_codecs_def with_json_def)

section \<open>The service\<close>

definition profile_body :: json_map where
  "profile_body = [(''email'', JStr ''starjiang@gmail.com''), (''name'', JStr ''jiangyouxing'')]"

text \<open>\<open>GetProfile\<close>, which takes \<open>dur\<close> milliseconds. The body of the request is read and not used.\<close>

definition GetProfile :: "int \<Rightarrow> (json_map, 'x, 'w apm_world) exchange \<Rightarrow> (json_map, 'x, 'w apm_world) ex_run" where
  "GetProfile dur e =
     Done (e\<lparr>xResp := Response_SetBody (Some profile_body) (xResp e),
             xWorld := (xWorld e)\<lparr>awClock := awClock (xWorld e) + dur\<rparr>\<rparr>)"

definition ProfileService :: "int \<Rightarrow> (json_map, 'x, 'w apm_world) service" where
  "ProfileService dur = [''GetProfile'' \<mapsto> GetProfile dur]"

definition Middleware1 :: "(json_map, 'x, 'w apm_world) ex_mw" where
  "Middleware1 next e = (case next of None \<Rightarrow> Panicked NilDeref e | Some f \<Rightarrow> f e)"

definition Middleware2 :: "(json_map, 'x, 'w apm_world) ex_mw" where
  "Middleware2 next e = (case next of None \<Rightarrow> Panicked NilDeref e | Some f \<Rightarrow> f e)"

text \<open>What \<open>OnData\<close> logs: the status of the one method, nil when it was not called.\<close>

definition OnData :: "(string \<times> status_ref) list \<Rightarrow> apm_status list \<Rightarrow> apm_status option" where
  "OnData data heap = map_option ((!) heap) (map_of data ''GetProfile'')"

definition profile_context :: "int \<Rightarrow> int \<Rightarrow> (json_map, 'x, 'w apm_world) service_context" where
  "profile_context port dur =
     AddMiddleware ''profile'' Middleware
       (CreateService ''profile'' port (ProfileService dur) 100 (NewServiceContext [''127.0.0.1:2379'']))"

text \<open>The handler that \<open>StartAndWait\<close> makes of it.\<close>

definition profile_handler :: "json_map codec \<Rightarrow> start_env \<Rightarrow> int \<Rightarrow> int \<Rightarrow> (json_map, 'x, 'w apm_world) service_handler" where
  "profile_handler mp env port dur =
     (let svc = profile_context port dur
      in snd (start_service (map_codecs mp) [] env svc (the (map_of (scServiceList svc) ''profile''))))"

section \<open>What a call does\<close>

lemma profile_chain:
  fixes h :: "(json_map, 'x, 'w apm_world) service_handler"
  assumes "h = profile_handler mp env port dur"
  shows "invoke (length (shInfos h)) (shInfos h) 0 = Middleware (Some (onRequest (map_codecs mp) [] (ProfileService dur)))"
proof -
  have h: "h = NewServiceHandler (map_codecs mp) [] (ProfileService dur) (append_info Middleware [])"
    by (simp add: assms profile_handler_def profile_context_def start_service_def CreateService_def NewServiceContext_def
        AddMiddleware_def chain_of_def append_info_def Let_def)
  have "Some (invoke (length (shInfos h)) (shInfos h) 0) =
      compose (map miFunc (append_info Middleware []) @ [finalFunc (map_codecs mp) [] (ProfileService dur)])"
    unfolding h by (rule handler_chain [OF append_info_linked [OF linked_Nil]])
  then show ?thesis
    by (simp add: append_info_funcs finalFunc_def [abs_def])
qed

text \<open>The body a client reads back.\<close>

lemma profile_body_decodes: "enc_map (Some profile_body) = Inr bb \<Longrightarrow> dec_map bb = Inr profile_body"
proof -
  assume "enc_map (Some profile_body) = Inr bb"
  then have bb: "of_bytes bb = CHR ''{'' # enc_members profile_body @ CHR ''}'' # [CHR 0x0A]"
    by (auto simp: enc_map_def bytes_roundtrip)
  let ?s = "CHR ''{'' # enc_members profile_body @ CHR ''}'' # [CHR 0x0A]"
  have "valid_utf8 ''email''" "valid_utf8 ''name''" "valid_utf8 ''starjiang@gmail.com''" "valid_utf8 ''jiangyouxing''"
    by code_simp+
  then have "\<forall>(k, v) \<in> set profile_body. valid_utf8 k \<and> flat v"
    by (simp add: profile_body_def)
  moreover have "length profile_body < length ?s"
    using length_enc_members [of profile_body] by simp
  ultimately have "parse_value (Suc (length ?s)) ?s = Some (JObj profile_body, [CHR 0x0A])"
    by (intro parse_object) (simp_all add: profile_body_def)
  then show ?thesis
    by (simp add: dec_map_def bb Let_def del: parse_value.simps)
qed

lemma profile_body_size: "length (to_bytes ([CHR ''{''] @ enc_members profile_body @ [CHR ''}'', CHR 0x0A])) \<le> 100"
  by code_simp

text \<open>
  C6: the example service as a whole: a JSON call of \<open>GetProfile\<close> is answered by one package with the
  request's head and the profile as body, which a client decodes to the same map, and the monitor
  has counted the call with its time, and as an error exactly when the request's head had a return
  code.
\<close>

theorem profile_service_answers:
  fixes w :: "'w apm_world"
  assumes "pFormat req = FORMAT_JSON" "json_good (pHead req)" "hMethod (pHead req) = ''GetProfile''"
    and "EncodeWithBodyData (map_codecs mp) req = Inr d" "length d \<le> 2 ^ 32"
    and "json_enc_head (pHead req) = Inr hb" "length hb + 111 \<le> 2 ^ 32"
  shows "\<exists>d' p w'. Dispatch (map_codecs mp) (profile_handler mp env port dur :: (json_map, 'x, 'w apm_world) service_handler) True d now w = ([d'], w') \<and>
    DecodeWithBodyData (map_codecs mp) d' = Ret (Inr p) \<and> GetHead p = pHead req \<and>
    DecodeBody (map_codecs mp) p = Inr profile_body \<and>
    awMonitor w' = am_call (''GetProfile'', dur, hRet (pHead req)) (awMonitor w)"
proof -
  let ?cs = "map_codecs mp" and ?req = "req\<lparr>pPkgData := Some d, pBody := None\<rparr>"
  have dec: "DecodeWithBodyData ?cs d = Ret (Inr ?req)"
    using json_package_frame [of req ?cs d] assms by simp
  let ?e = "new_exchange ?req now w :: (json_map, 'x, 'w apm_world) exchange"
  let ?r = "fst (am_lookup ''GetProfile'' (awMonitor w))"
  let ?x = "on_monitor (am_count ?r) (on_monitor (\<lambda>am. snd (am_lookup ''GetProfile'' am)) ?e)"
  let ?y = "?x\<lparr>xResp := Response_SetBody (Some profile_body) (xResp ?x),
             xWorld := (xWorld ?x)\<lparr>awClock := awClock (xWorld ?x) + dur\<rparr>\<rparr>"
  let ?reply = "NewPackageWithBody FORMAT_JSON (pHead req) (Some profile_body)"
  have heads: "resp_head ?y = pHead req" "rsFormat (xResp ?y) = FORMAT_JSON" "rsBody (xResp ?y) = Some profile_body"
    using assms(1) by (simp_all add: resp_head_def Response_SetBody_def new_exchange_def on_monitor_def pkg_accessors)
  obtain bb where bb: "enc_map (Some profile_body) = Inr bb" "length bb \<le> 100"
    using profile_body_size by (simp add: enc_map_def)
  obtain d' where d': "send_encoded ?cs ?reply ?y = SendPkg d' ?y"
    "DecodeWithBodyData ?cs d' = Ret (Inr (?reply\<lparr>pBodyData := bb, pPkgData := Some d', pBody := None\<rparr>))"
    using send_json [of ?reply hb ?cs bb ?y] assms(2,6,7) bb by (auto simp: pkg_accessors)
  have "onRequest ?cs [] (ProfileService dur) ?x = Done (send_encoded ?cs ?reply ?y)"
    using onRequest_found [of "ProfileService dur" ?x "GetProfile dur" ?y ?cs "[]"] assms(3) heads
    by (simp add: ProfileService_def GetProfile_def)
  then have "Middleware (Some (onRequest ?cs [] (ProfileService dur))) ?e =
      Done (on_monitor (am_judge ?r (hRet (pHead req))) (on_monitor (am_time ?r dur) (SendPkg d' ?y)))"
    using assms(3) heads(1) d'(1)
    by (simp add: Middleware_def Let_def SendPkg_def resp_head_def)
  then have "Dispatch ?cs (profile_handler mp env port dur :: (json_map, 'x, 'w apm_world) service_handler) True d now w =
      ([d'], xWorld (on_monitor (am_judge ?r (hRet (pHead req))) (on_monitor (am_time ?r dur) (SendPkg d' ?y))))"
    by (simp add: Dispatch_def handle_package_def dec profile_chain [OF refl] SendPkg_def)
  moreover have "DecodeBody ?cs (?reply\<lparr>pBodyData := bb, pPkgData := Some d', pBody := None\<rparr>) = Inr profile_body"
    using profile_body_decodes [OF bb(1)] by (simp add: DecodeBody_def pkg_accessors pkg_consts)
  ultimately show ?thesis
    using d'(2) by (auto simp: pkg_accessors am_call_def Let_def split_beta SendPkg_def)
qed

section \<open>A witness\<close>

definition map_codec :: "json_map codec" where
  "map_codec = \<lparr>enc_head = json_enc_head, dec_head = json_dec_head, enc_body = enc_map, dec_body = dec_map, dec_by_value = dec_map\<rparr>"

definition profile_request :: "json_map easy_package" where
  "profile_request = NewPackageWithBodyData FORMAT_JSON (SetMethod ''GetProfile'' (SetService ''profile'' NewEasyHead)) [123, 125]"

definition lucky_start :: start_env where
  "lucky_start = \<lparr>envListen = (\<lambda>_. None), envConnect = (\<lambda>_. None), envRegister = (\<lambda>_ _ _. None)\<rparr>"

lemma profile_service_answers_witness:
  "\<exists>d d' p w'. EncodeWithBodyData (map_codecs map_codec) profile_request = Inr d \<and>
     Dispatch (map_codecs map_codec) (profile_handler map_codec lucky_start 8001 3 :: (json_map, unit, unit apm_world) service_handler)
       True d 9 \<lparr>awMonitor = NewApmMonitor, awClock = 100, awRest = ()\<rparr> = ([d'], w') \<and>
     DecodeWithBodyData (map_codecs map_codec) d' = Ret (Inr p) \<and> DecodeBody (map_codecs map_codec) p = Inr profile_body \<and>
     amHeap (awMonitor w') = [\<lparr>asTotal = 1, asError = 0, asTime = 3\<rparr>]"
proof -
  let ?h = "SetMethod ''GetProfile'' (SetService ''profile'' NewEasyHead)"
  have good: "json_good ?h" by code_simp
  have "length (to_bytes ([CHR ''{''] @ enc_members (head_members ?h) @ [CHR ''}'', CHR 0x0A])) \<le> 1000"
    by code_simp
  then obtain hb where hb: "json_enc_head ?h = Inr hb" "length hb \<le> 1000"
    by (simp add: json_enc_head_def)
  then obtain d where d: "EncodeWithBodyData (map_codecs map_codec) profile_request = Inr d" "length d \<le> 2 ^ 32"
    by (auto simp: EncodeWithBodyData_eq map_codecs_def codec_of.simps profile_request_def pkg_accessors pkg_consts length_frame)
  have m: "am_call (''GetProfile'', 3, 0) NewApmMonitor =
      \<lparr>amHeap = [\<lparr>asTotal = 1, asError = 0, asTime = 3\<rparr>], amStatuses = [(''GetProfile'', 0)], amInterval = 60000000000\<rparr>"
    by (simp add: am_call_def am_lookup_def NewApmMonitor_def APM_COUNT_INTERVAL_def am_count_def am_time_def am_judge_def am_upd_def Let_def)
  have q: "pFormat profile_request = FORMAT_JSON" "pHead profile_request = ?h" "hMethod ?h = ''GetProfile''" "hRet ?h = 0"
    by (simp_all add: profile_request_def pkg_accessors head_setters NewEasyHead_def)
  from profile_service_answers [of profile_request map_codec d hb lucky_start 8001 3 9
      "\<lparr>awMonitor = NewApmMonitor, awClock = 100, awRest = ()\<rparr>"] good hb d q m
  show ?thesis by fastforce
qed

end
