(* ===== verification/Spec2Isabelle.thy ===== *)
theory Spec2Isabelle
  imports Easy_Reader Circuit_Breaker Load_Balancer Session_Manager Easy_Connection Config_Values Json_Head
    Middleware Service_Handler Service_Context Apm_Monitor Service_Register Node_Manager Service_Client Easy_Client Gateway Server Client_Progress Example_Service
begin

text \<open>
  easycall, a microservice framework in Go (\<open>github.com/starjiang/easycall\<close>), and what has been
  proved of it.

  \<^bold>\<open>The program.\<close> A process offers services under names (\<open>service_context.go\<close>): for each one it
  listens on a port (\<open>server.go\<close>), registers the address in etcd and keeps it alive
  (\<open>service_register.go\<close>). A client of a service (\<open>service_client.go\<close>, and \<open>easy_client.go\<close> for all
  services) gets the addresses from etcd (\<open>node_manager.go\<close>), chooses one (\<open>load_balancer.go\<close>), takes
  a connection from the pool of that address (\<open>pool.go\<close>), opens a session (\<open>session_manager.go\<close>) and
  sends a package with the session's number (\<open>easy_package.go\<close>). On each connection
  (\<open>easy_connection.go\<close>) one goroutine writes and one reads and hands every package to a handler:
  the service's (\<open>service_handler.go\<close>), which runs a chain of middlewares and the method and answers,
  the client's (\<open>client_handler.go\<close>), which finds the session and passes the answer to the waiting
  caller, or the gateway's (\<open>gateway_handler.go\<close>, \<open>http_handler.go\<close>, \<open>example/gateway.go\<close>), which
  forwards it. Beside that there are a circuit breaker (\<open>circuit_breaker.go\<close>), a monitor of calls
  (\<open>apm_monitor.go\<close>) and the configuration (\<open>easy_config.go\<close>).

  \<^bold>\<open>The theories\<close>, in the order of their imports.

  \<^item> \<open>Go_Prelude\<close>: outcomes (a value or a panic), integers cut to 32 and 64 bits, slices and indices
    that panic, reachable states and the invariant rule (locale \<open>invariant_system\<close>).
  \<^item> \<open>Easy_Package\<close>: head and package with all accessors, both encoders and decoders; round trips in
    the locale \<open>head_codec\<close>. \<open>Easy_Reader\<close>: \<open>EasyConnection.Read\<close> on a stream cut into segments.
    \<open>Json_Head\<close>: \<open>encoding/json\<close> for the head, byte by byte, which interprets \<open>head_codec\<close>.
  \<^item> \<open>Go_Float32\<close>, \<open>Circuit_Breaker\<close>: \<open>float32\<close> division and the breaker, in sequence and with any
    number of concurrent calls (\<open>cb_do\<close>).
  \<^item> \<open>Easy_Node\<close>, \<open>Load_Balancer\<close>: the five strategies, each an instance of the locale \<open>strategy\<close>.
  \<^item> \<open>Session_Manager\<close>: the table of pending requests with callers, timers and pool workers as
    atomic steps (\<open>sm_do\<close>).
  \<^item> \<open>Generic_Pool\<close>, \<open>Pool_Progress\<close>: the pool as one goroutine sees it and as atomic steps of many
    (\<open>pool_do\<close>); the contract of a pool that lends and takes back (locale \<open>lending\<close>).
  \<^item> \<open>Easy_Connection\<close>: \<open>Connect\<close>, \<open>Send\<close>, \<open>Write\<close>, the clean-up of \<open>Read\<close> and \<open>Close\<close> as atomic steps
    (\<open>conn_do\<close>); it interprets the pool's interface of resources.
  \<^item> \<open>Go_Strings\<close>, \<open>Go_Parse_Float\<close>, \<open>Easy_Config\<close>, \<open>Config_Values\<close>: \<open>strings\<close> and \<open>strconv\<close>, loading of
    files and remote configurations, typed values and \<open>GetConfig\<close>.
  \<^item> \<open>Middleware\<close>: the linked chain of middlewares and the locale \<open>middleware_owner\<close>, which the three
    owners of a chain interpret. \<open>Service_Handler\<close>: \<open>error.go\<close>, \<open>request.go\<close>, \<open>response.go\<close> and the
    dispatch of a package. \<open>Service_Context\<close>: setting up, starting and stopping services.
    \<open>Apm_Monitor\<close>: the counters, the middleware and the reporter. \<open>Example_Service\<close>: the service of
    \<open>example/example_service.go\<close>, with JSON maps as bodies.
  \<^item> \<open>Service_Register\<close>, \<open>Node_Manager\<close>: both sides of the registry in etcd.
  \<^item> \<open>Service_Client\<close>, \<open>Easy_Client\<close>, \<open>Client_Progress\<close>: a request through all components of the client;
    the client's handler; the proof that requests come to an end.
  \<^item> \<open>Gateway\<close>, \<open>Server\<close>: the two proxy middlewares of the gateway; the listening sides.
  \<^item> This theory: properties that span both ends.

  \<^bold>\<open>How the code is translated.\<close> A struct is a record, a pointer a position in a list or a heap that
  is part of the state, a panic the constructor \<open>Panic\<close>, an error the left side of a sum, nil \<open>None\<close>. A
  function that can wait for ever or run out of fuel returns an option. Code under a lock, an
  operation of \<open>sync/atomic\<close> and an operation on a channel are one step each; the theories with
  goroutines have a function from an action to the next state, and their theorems hold for all
  sequences of actions. Logging is left out.

  \<^bold>\<open>Parameters\<close> are what the repository does not contain: msgpack and the serialisers of user bodies
  (record \<open>codecs\<close>), the methods of a service, etcd (record \<open>etcd_client\<close> with the contract
  \<open>etcd_contract\<close>: a put is read by a query with a prefix of its key, a delete removes it, and no
  other operation changes a pair that stays alive), the outcome of dialling, the clock, \<open>rand\<close>, the
  file system and what arrives while a goroutine waits.

  \<^bold>\<open>Fuel.\<close> \<open>Acquire\<close> loops until it finds a usable connection: \<open>acquire_terminates\<close> shows that one round
  more than the size of the pool is enough, and a client of its own pool needs twelve
  (\<open>requests_always_return\<close>). \<open>invoke\<close> gets the length of the chain, which is enough for a linked
  chain (\<open>handler_chain\<close>); the JSON parser gets the length of its input. Everything else is
  structural or has a measure.

  \<^bold>\<open>What the lemmas show.\<close> Packages: framing and head codecs are inverse, a decoder panics only on
  lengths that wrap around, and the reader cuts a stream into exactly its packages. Connections: the
  bytes on the socket are a prefix of the accepted packages. Pool: size and queue bounds under
  concurrency, no panic before a shutdown. Sessions: at most one result for each, with the
  session's own number; the counter of a node is the number of its open sessions; a waiting caller
  can always be served. Breaker: it refines the three-state automaton and trips on a majority of
  failures. Balancer: members only, round robin is fair, hashing is stable. Registry: what is
  registered is found, and found again after a lost lease. Service: a package gets at most one
  answer, through all middlewares in order. Client: a request ends, refused without a trace or sent
  with a session; answers become errors by their codes. Monitor and configuration: counts are
  exact, values are read back. \<open>reply_reaches_its_request\<close> puts the path of a request together.

  \<^bold>\<open>Where the code falls short of its purpose\<close> is proved as well; the theorems say so in their
  texts. Among them: \<open>wrapping_lengths_panic\<close> and \<open>cut_frame_rejected\<close> (reader), \<open>encode_failure_blocks\<close>
  and \<open>stopped_timer_goroutine_leaks\<close> (sessions), \<open>pool_size_argument_ignored\<close>, \<open>failed_dial_is_permanent\<close>
  and \<open>empty_service_first_lookup\<close> (clients), \<open>unregistered_service_comes_back\<close> and
  \<open>second_service_takes_the_lease\<close> (registry), \<open>gateway_error_stops_connection\<close> and
  \<open>gateway_reply_has_other_number\<close> (gateway), \<open>status_delivered_once\<close> (monitor), \<open>cb_stale_failures_trip\<close>
  (breaker), \<open>dead_writer_blocks_cleanup\<close> (connection), \<open>weighted_shares\<close> (balancer),
  \<open>failed_fetch_not_retried\<close> and \<open>unterminated_line_ignored\<close> (configuration).

  \<^bold>\<open>Not modelled.\<close> The calls of \<open>net\<close>, \<open>net/http\<close>, \<open>os\<close> and the goroutine pools of \<open>ants\<close> beyond their
  results; the helpers \<open>HttpGet\<close>, \<open>GetTimeNowStr\<close> and \<open>GetTimeNowDate\<close>; \<open>PanicHandler\<close>, whose effect is
  part of the dispatch functions; the main functions of the other examples; the tests, which print
  and check nothing. The request of a client is modelled on one goroutine: what others do to its
  pool, connection and session in between is in the theories of these components, and one model of
  all of them at once remains to be done. Data races of the code outside its locks are steps in an
  order; Go's memory model is not modelled.
\<close>

section \<open>A request and its reply\<close>

text \<open>The number of a session changes nothing that the JSON codec minds.\<close>

lemma json_good_seq: "json_good (SetSeq n head) = json_good head"
  by (simp add: json_good_def head_setters)

text \<open>
  C1: a JSON request over the whole path. The client of a service sends one package; the
  service's connection reader cuts it out of the stream; the service's handler runs the method and
  answers with one package; the client's reader dispatches it, and the client's handler and session
  table pass the head and the body of the method's response to the caller that waits for this
  request.
\<close>

theorem reply_reaches_its_request:
  assumes sent: "RequestAsyncWithHead (with_json cs) env FORMAT_JSON head (Bytes body) ec = Some (Ret (Sent s head'), ec')"
    and head: "json_good head" "json_enc_head head' = Inr hq" "length hq \<le> unat HEAD_MAX_LEN"
      "length hq + length body + 11 < 2 ^ 32" "hSeq head' \<noteq> 0"
    and service: "service (hMethod head) = Some m"
      "m (new_exchange \<lparr>pFormat = FORMAT_JSON, pHead = head', pBodyData = body,
            pPkgData = Some (frame FORMAT_JSON hq body), pBody = None\<rparr> now w) = Done e"
      "xSent e = []" "rsFormat (xResp e) = FORMAT_JSON" "hSeq (resp_head e) = hSeq head'"
    and reply: "json_good (resp_head e)" "json_enc_head (resp_head e) = Inr hr" "length hr \<le> unat HEAD_MAX_LEN"
      "enc_body (json cs) (rsBody (xResp e)) = Inr bb" "length hr + length bb + 11 < 2 ^ 32"
    and idle: "smThreads (clSessionMgr ec') t = Idle"
  shows "\<exists>k c d d' p sm. clSent ec' = clSent ec @ [(k, c, d)] \<and> read_loop [d] = ([d], PeerClosed) \<and>
    Dispatch (with_json cs) (NewServiceHandler (with_json cs) noBody service []) True d now w = ([d'], xWorld e) \<and>
    read_loop [d'] = ([d'], PeerClosed) \<and>
    sm_run (ClientHandler_Dispatch (with_json cs) True d' t (clSessionMgr ec')) [Receive s, Delete t, Lock t, Send t] = Some sm \<and>
    sReceive (smSessions sm ! s) = Received (Some p) \<and> GetHead p = resp_head e \<and> GetBodyData p = bb"
proof -
  let ?d = "frame FORMAT_JSON hq body" and ?d' = "frame FORMAT_JSON hr bb"
  let ?req = "NewPackageWithBodyData FORMAT_JSON head' body :: 'a easy_package"
  obtain h node c d where r: "s = length (smSessions (clSessionMgr ec))" "head' = SetSeq (smSeq (clSessionMgr ec) + 1) head"
    "encode_request (with_json cs) FORMAT_JSON head' (Bytes body :: 'a request_body) = Inr d"
    "clSent ec' = clSent ec @ [(pool_key (h node), c, d)]"
    "clSessionMgr ec' = upd_session s (\<lambda>x. x\<lparr>sCaller := Returned, sTimerWaits := True\<rparr>)
       (snd (InitSession node ((clSessionMgr ec)\<lparr>smNodes := h\<rparr>)))"
    by (rule RequestAsyncWithHead_Sent [OF sent])
  have enc: "EncodeWithBodyData (with_json cs) ?req = Inr ?d"
    using head(2) by (simp add: EncodeWithBodyData_eq with_json_def codec_of.simps pkg_accessors)
  with r(3) have d: "d = ?d" by (simp add: encode_request_def)
  have good: "json_good head'" "hMethod head' = hMethod head"
    using head(1) by (simp_all add: r(2) json_good_seq) (simp add: head_setters)
  have seg: "read_loop [x] = ([x], PeerClosed)" if "sendable x" for x
    using that read_loop_segments [of "[[x]]"] by simp
  have "onRequest (with_json cs) noBody service (new_exchange (?req\<lparr>pPkgData := Some ?d, pBody := None\<rparr>) now w) =
      Done (send_encoded (with_json cs) (NewPackageWithBody FORMAT_JSON (resp_head e) (rsBody (xResp e))) e)"
    using onRequest_found [of service "new_exchange (?req\<lparr>pPkgData := Some ?d, pBody := None\<rparr>) now w" m e "with_json cs" noBody]
      service good(2) by (simp add: pkg_accessors)
  then obtain p where p: "Dispatch (with_json cs) (NewServiceHandler (with_json cs) noBody service []) True ?d now w = ([?d'], xWorld e)"
    "DecodeWithBodyData (with_json cs) ?d' = Ret (Inr p)" "GetHead p = resp_head e" "GetBodyData p = bb"
    using json_reply_frame [OF _ _ enc _ _ service(3) reply(1,2,4)] good(1) head(4) reply(5)
    by (force simp: pkg_accessors length_frame)
  let ?sm = "clSessionMgr ec'"
  have f: "GetSession (GetSeq (GetHead p)) ?sm = Some s" "GetSeq (GetHead p) \<noteq> 0"
    using service(5) head(5) by (simp_all add: p(3) r head_getters head_setters GetSession_def upd_session_def)
  have "\<exists>sm. sm_run (set_thread t (Deleting s (Some p)) ?sm) [Receive s, Delete t, Lock t, Send t] = Some sm \<and>
      sReceive (smSessions sm ! s) = Received (Some p) \<and> smMap sm (sSeq (smSessions ?sm ! s)) = None"
    by (rule served_at_once) (simp_all add: r(1,5) InitSession_def AddSession_def upd_session_def Let_def)
  then obtain sm where "sm_run (ClientHandler_Dispatch (with_json cs) True ?d' t ?sm) [Receive s, Delete t, Lock t, Send t] = Some sm"
    "sReceive (smSessions sm ! s) = Received (Some p)"
    using ClientHandler_finds_session [OF p(2) f idle] by auto
  moreover have "sendable ?d" "sendable ?d'"
    using head(3,4) reply(3,5) by (auto intro!: sendableI simp: pkg_consts)
  ultimately show ?thesis
    using p r(4) d seg by blast
qed

section \<open>A connection and its reader\<close>



section \<open>A witness\<close>

definition hello_service :: "(nat, unit, nat) service" where
  "hello_service name =
     (if name = ''hello''
      then Some (\<lambda>e. Done (e\<lparr>xResp := Response_SetBody (Some 5) (xResp e), xWorld := Suc (xWorld e)\<rparr>))
      else None)"

lemma numbered_head:
  "json_good (SetSeq 1 plain_head)" "\<exists>hb. json_enc_head (SetSeq 1 plain_head) = Inr hb \<and> length hb \<le> 1000"
proof -
  show "json_good (SetSeq 1 plain_head)" by code_simp
  have "length (to_bytes ([CHR ''{''] @ enc_members (head_members (SetSeq 1 plain_head)) @ [CHR ''}'', CHR 0x0A])) \<le> 1000"
    by code_simp
  then show "\<exists>hb. json_enc_head (SetSeq 1 plain_head) = Inr hb \<and> length hb \<le> 1000"
    by (simp add: json_enc_head_def)
qed

lemma reply_reaches_its_request_witness:
  "\<exists>head' ec' d' p sm. RequestAsyncWithHead (with_json sample_codecs) sample_client_env FORMAT_JSON plain_head (Bytes [1]) sample_client =
      Some (Ret (Sent 0 head'), ec') \<and>
    sm_run (ClientHandler_Dispatch (with_json sample_codecs) True d' 3 (clSessionMgr ec')) [Receive 0, Delete 3, Lock 3, Send 3] = Some sm \<and>
    sReceive (smSessions sm ! 0) = Received (Some p) \<and> GetHead p = SetSeq 1 plain_head \<and> GetBodyData p = [5]"
proof -
  obtain head' ec' where r: "RequestAsyncWithHead (with_json sample_codecs) sample_client_env FORMAT_JSON plain_head (Bytes [1]) sample_client =
      Some (Ret (Sent 0 head'), ec')"
    using sample_sent [OF plain_head_simps, of FORMAT_JSON] by blast
  have h: "head' = SetSeq 1 plain_head" and t: "smThreads (clSessionMgr ec') 3 = Idle"
    by (rule RequestAsyncWithHead_Sent [OF r];
        simp add: sample_client_def NewServiceClient_def sm_init_def InitSession_def AddSession_def upd_session_def Let_def)+
  obtain hb where hb: "json_enc_head (SetSeq 1 plain_head) = Inr hb" "length hb \<le> 1000"
    using numbered_head(2) by blast
  let ?x = "new_exchange \<lparr>pFormat = FORMAT_JSON, pHead = SetSeq 1 plain_head, pBodyData = [1],
    pPkgData = Some (frame FORMAT_JSON hb [1]), pBody = None\<rparr> 9 (0::nat) :: (nat, unit, nat) exchange"
  let ?y = "?x\<lparr>xResp := Response_SetBody (Some 5) (xResp ?x), xWorld := Suc (xWorld ?x)\<rparr>"
  have y: "resp_head ?y = SetSeq 1 plain_head"
    by (simp add: resp_head_def Response_SetBody_def new_exchange_def pkg_accessors)
  have m: "hMethod plain_head = ''hello''" "hSeq (SetSeq 1 plain_head) = 1"
    by (simp_all add: plain_head_def head_setters)
  show ?thesis
    using reply_reaches_its_request [OF r, of hb hello_service _ 9 0 ?y hb "[5]" 3 0] r t hb y m numbered_head(1)
    by (fastforce simp: h json_good_seq hello_service_def sample_json_body Response_SetBody_def HEAD_MAX_LEN_def simp del: sm_run.simps)
qed

end
